theory Spec2Isabelle
  imports Main "HOL-Library.Word"
begin

unbundle bit_operations_syntax

section \<open>JavaScript values used by the vault\<close>

text \<open>
  A JavaScript string is a sequence of 16-bit code units; \<open>pin.length\<close> and
  \<open>charCodeAt\<close> count and read code units.  A \<open>Uint8Array\<close> is a list of bytes.
\<close>

type_synonym jsstring = "16 word list"
type_synonym bytes = "8 word list"

text \<open>A string is truthy iff it is not empty (\<open>if (pin)\<close>, \<open>!ep\<close>, \<open>cred.password\<close>).\<close>

definition truthy :: "jsstring \<Rightarrow> bool" where
  "truthy s = (s \<noteq> [])"

text \<open>
  A property that may be absent (\<open>undefined\<close>) or \<open>null\<close> is an option; it is truthy
  iff it is present and a non-empty string (\<open>cred.iv && cred.salt\<close>).
\<close>

definition truthy_opt :: "jsstring option \<Rightarrow> bool" where
  "truthy_opt v = (case v of None \<Rightarrow> False | Some s \<Rightarrow> truthy s)"

subsection \<open>Number formatting and parsing\<close>

text \<open>The lower-case digit of \<open>Number.prototype.toString(16)\<close> for a value below 16.\<close>

definition hexdigit :: "nat \<Rightarrow> 16 word" where
  "hexdigit d = (if d < 10 then of_nat (48 + d) else of_nat (87 + d))"

text \<open>\<open>n.toString(16)\<close> for a non-negative integer: at least one digit, no leading zero.\<close>

function hexDigits :: "nat \<Rightarrow> jsstring" where
  "hexDigits n = (if n < 16 then [hexdigit n] else hexDigits (n div 16) @ [hexdigit (n mod 16)])"
  by pat_completeness auto
termination
  by (relation "measure (\<lambda>n. n)") auto

declare hexDigits.simps [simp del]

text \<open>\<open>n.toString(16)\<close> for an integer: a minus sign before the digits of a negative one.\<close>

definition toString16 :: "int \<Rightarrow> jsstring" where
  "toString16 n = (if n < 0 then 45 # hexDigits (nat (- n)) else hexDigits (nat n))"

text \<open>\<open>s.padStart(2, '0')\<close>.\<close>

definition padStart2 :: "jsstring \<Rightarrow> jsstring" where
  "padStart2 s = replicate (2 - length s) 48 @ s"

text \<open>
  \<open>parseInt(s, 16)\<close> (ECMAScript 19.2.5): leading white space is skipped, then an optional
  sign, then an optional \<open>0x\<close>/\<open>0X\<close> prefix, then the longest run of hexadecimal
  digits; no digit at all gives \<open>NaN\<close>, which is \<open>None\<close> here.
\<close>

definition isStrWhiteSpaceChar :: "16 word \<Rightarrow> bool" where
  "isStrWhiteSpaceChar c =
     (c = 0x9 \<or> c = 0xA \<or> c = 0xB \<or> c = 0xC \<or> c = 0xD \<or> c = 0x20 \<or> c = 0xA0
      \<or> c = 0x1680 \<or> (0x2000 \<le> c \<and> c \<le> 0x200A) \<or> c = 0x2028 \<or> c = 0x2029
      \<or> c = 0x202F \<or> c = 0x205F \<or> c = 0x3000 \<or> c = 0xFEFF)"

definition hexval :: "16 word \<Rightarrow> nat option" where
  "hexval c =
     (if 0x30 \<le> c \<and> c \<le> 0x39 then Some (unat c - 0x30)
      else if 0x61 \<le> c \<and> c \<le> 0x66 then Some (unat c - 0x61 + 10)
      else if 0x41 \<le> c \<and> c \<le> 0x46 then Some (unat c - 0x41 + 10)
      else None)"

fun hexPrefixValue :: "nat option \<Rightarrow> jsstring \<Rightarrow> nat option" where
  "hexPrefixValue acc [] = acc"
| "hexPrefixValue acc (c # cs) =
     (case hexval c of
        None \<Rightarrow> acc
      | Some d \<Rightarrow> hexPrefixValue (Some ((case acc of None \<Rightarrow> 0 | Some a \<Rightarrow> a) * 16 + d)) cs)"

definition stripHexPrefix :: "jsstring \<Rightarrow> jsstring" where
  "stripHexPrefix s =
     (case s of
        a # b # rest \<Rightarrow> if a = 0x30 \<and> (b = 0x78 \<or> b = 0x58) then rest else s
      | _ \<Rightarrow> s)"

definition parseInt16 :: "jsstring \<Rightarrow> int option" where
  "parseInt16 input =
     (let s = dropWhile isStrWhiteSpaceChar input;
          neg = (case s of c # _ \<Rightarrow> c = 0x2D | [] \<Rightarrow> False);
          s1 = (case s of c # cs \<Rightarrow> if c = 0x2B \<or> c = 0x2D then cs else s | [] \<Rightarrow> s)
      in case hexPrefixValue None (stripHexPrefix s1) of
           None \<Rightarrow> None
         | Some v \<Rightarrow> Some (if neg then - int v else int v))"

text \<open>
  The substrings \<open>s.substr(i, 2)\<close> for \<open>i = 0, 2, 4, ...\<close> while \<open>i < s.length\<close>: the last
  one has a single code unit when the length is odd.
\<close>

fun substrPairs :: "jsstring \<Rightarrow> jsstring list" where
  "substrPairs [] = []"
| "substrPairs [a] = [[a]]"
| "substrPairs (a # b # rest) = [a, b] # substrPairs rest"

text \<open>
  The remainder operator \<open>a % b\<close> on integers: the result has the sign of the dividend.
\<close>

definition js_rem :: "int \<Rightarrow> int \<Rightarrow> int" where
  "js_rem a b = (if a < 0 then - ((- a) mod \<bar>b\<bar>) else a mod \<bar>b\<bar>)"

subsection \<open>TextEncoder and TextDecoder\<close>

text \<open>
  \<open>new TextEncoder().encode(s)\<close> first converts the string to scalar values: a high
  surrogate followed by a low surrogate is one supplementary code point, and a surrogate
  that stands alone is replaced by \<open>U+FFFD\<close>.  Then every scalar value is written in UTF-8.
\<close>

definition isHighSurrogate :: "nat \<Rightarrow> bool" where
  "isHighSurrogate c = (0xD800 \<le> c \<and> c \<le> 0xDBFF)"

definition isLowSurrogate :: "nat \<Rightarrow> bool" where
  "isLowSurrogate c = (0xDC00 \<le> c \<and> c \<le> 0xDFFF)"

fun scalarValues :: "nat list \<Rightarrow> nat list" where
  "scalarValues [] = []"
| "scalarValues (c # cs) =
     (if isHighSurrogate c then
        (case cs of
           [] \<Rightarrow> [0xFFFD]
         | d # ds \<Rightarrow>
             if isLowSurrogate d
             then (0x10000 + (c - 0xD800) * 0x400 + (d - 0xDC00)) # scalarValues ds
             else 0xFFFD # scalarValues cs)
      else if isLowSurrogate c then 0xFFFD # scalarValues cs
      else c # scalarValues cs)"

definition utf8Bytes :: "nat \<Rightarrow> nat list" where
  "utf8Bytes cp =
     (if cp < 0x80 then [cp]
      else if cp < 0x800 then [0xC0 + cp div 64, 0x80 + cp mod 64]
      else if cp < 0x10000 then [0xE0 + cp div 4096, 0x80 + cp div 64 mod 64, 0x80 + cp mod 64]
      else [0xF0 + cp div 262144, 0x80 + cp div 4096 mod 64, 0x80 + cp div 64 mod 64,
            0x80 + cp mod 64])"

definition TextEncoder_encode :: "jsstring \<Rightarrow> bytes" where
  "TextEncoder_encode s = map of_nat (concat (map utf8Bytes (scalarValues (map unat s))))"

text \<open>
  \<open>new TextDecoder().decode(buffer)\<close>: the UTF-8 decoder of the Encoding standard, in
  replacement mode (\<open>fatal\<close> is false).  The state is the number of continuation bytes
  still needed, the code point read so far and the bounds of the next byte.  A byte out
  of bounds ends the sequence with \<open>U+FFFD\<close> and is read again as a first byte; input
  that ends inside a sequence gives one \<open>U+FFFD\<close>.
\<close>

function utf8Decode :: "nat \<Rightarrow> nat \<Rightarrow> nat \<Rightarrow> nat \<Rightarrow> nat list \<Rightarrow> nat list" where
  "utf8Decode need cp lo hi [] = (if need = 0 then [] else [0xFFFD])"
| "utf8Decode need cp lo hi (b # bs) =
     (if need = 0 then
        (if b \<le> 0x7F then b # utf8Decode 0 0 0x80 0xBF bs
         else if 0xC2 \<le> b \<and> b \<le> 0xDF then utf8Decode 1 (b mod 32) 0x80 0xBF bs
         else if 0xE0 \<le> b \<and> b \<le> 0xEF then
           utf8Decode 2 (b mod 16) (if b = 0xE0 then 0xA0 else 0x80)
             (if b = 0xED then 0x9F else 0xBF) bs
         else if 0xF0 \<le> b \<and> b \<le> 0xF4 then
           utf8Decode 3 (b mod 8) (if b = 0xF0 then 0x90 else 0x80)
             (if b = 0xF4 then 0x8F else 0xBF) bs
         else 0xFFFD # utf8Decode 0 0 0x80 0xBF bs)
      else if \<not> (lo \<le> b \<and> b \<le> hi) then 0xFFFD # utf8Decode 0 0 0x80 0xBF (b # bs)
      else if need = 1 then (cp * 64 + b mod 64) # utf8Decode 0 0 0x80 0xBF bs
      else utf8Decode (need - 1) (cp * 64 + b mod 64) 0x80 0xBF bs)"
  by pat_completeness auto
termination
  by (relation "measure (\<lambda>(need, cp, lo, hi, bs). 2 * length bs + (if need = 0 then 0 else 1))")
    auto

declare utf8Decode.simps [simp del]

text \<open>A code point as UTF-16 code units (a surrogate pair above \<open>U+FFFF\<close>).\<close>

definition codeUnits :: "nat \<Rightarrow> nat list" where
  "codeUnits cp =
     (if cp < 0x10000 then [cp]
      else [0xD800 + (cp - 0x10000) div 0x400, 0xDC00 + (cp - 0x10000) mod 0x400])"

text \<open>The decoder drops one leading byte order mark (\<open>ignoreBOM\<close> is false).\<close>

definition stripBOM :: "nat list \<Rightarrow> nat list" where
  "stripBOM cps = (case cps of [] \<Rightarrow> [] | c # cs \<Rightarrow> if c = 0xFEFF then cs else cps)"

definition TextDecoder_decode :: "bytes \<Rightarrow> jsstring" where
  "TextDecoder_decode buffer =
     map of_nat (concat (map codeUnits (stripBOM (utf8Decode 0 0 0x80 0xBF (map unat buffer)))))"

subsection \<open>btoa and atob\<close>

definition b64char :: "nat \<Rightarrow> 16 word" where
  "b64char i =
     (if i < 26 then of_nat (65 + i)
      else if i < 52 then of_nat (71 + i)
      else if i < 62 then of_nat (i - 4)
      else if i = 62 then 0x2B
      else 0x2F)"

definition b64index :: "16 word \<Rightarrow> nat option" where
  "b64index c =
     (if 0x41 \<le> c \<and> c \<le> 0x5A then Some (unat c - 65)
      else if 0x61 \<le> c \<and> c \<le> 0x7A then Some (unat c - 71)
      else if 0x30 \<le> c \<and> c \<le> 0x39 then Some (unat c + 4)
      else if c = 0x2B then Some 62
      else if c = 0x2F then Some 63
      else None)"

text \<open>
  \<open>btoa(binary)\<close> for a binary string built with \<open>String.fromCharCode(bytes[i])\<close>: every
  code unit is below 256, so \<open>btoa\<close> cannot throw.  The argument is given by its bytes.
\<close>

fun btoa :: "nat list \<Rightarrow> jsstring" where
  "btoa [] = []"
| "btoa [a] = [b64char (a div 4), b64char (a mod 4 * 16), 0x3D, 0x3D]"
| "btoa [a, b] =
     [b64char (a div 4), b64char (a mod 4 * 16 + b div 16), b64char (b mod 16 * 4), 0x3D]"
| "btoa (a # b # c # rest) =
     b64char (a div 4) # b64char (a mod 4 * 16 + b div 16)
       # b64char (b mod 16 * 4 + c div 64) # b64char (c mod 64) # btoa rest"

text \<open>
  \<open>atob(data)\<close> is the forgiving-base64 decode of the Infra standard: ASCII white space
  is removed; if the length is then a multiple of 4, one or two trailing \<open>=\<close> are removed;
  a length of 1 modulo 4 or a character outside the alphabet throws
  \<open>InvalidCharacterError\<close>; the bits left over after the last whole byte are dropped.
\<close>

datatype js_error = TypeError | InvalidCharacterError | OperationError

definition isAsciiWhitespace :: "16 word \<Rightarrow> bool" where
  "isAsciiWhitespace c = (c = 0x9 \<or> c = 0xA \<or> c = 0xC \<or> c = 0xD \<or> c = 0x20)"

definition stripPadding :: "jsstring \<Rightarrow> jsstring" where
  "stripPadding d =
     (if length d mod 4 = 0 \<and> d \<noteq> [] \<and> last d = 0x3D then
        (if butlast d \<noteq> [] \<and> last (butlast d) = 0x3D then butlast (butlast d) else butlast d)
      else d)"

fun sextetsToBytes :: "nat list \<Rightarrow> nat list" where
  "sextetsToBytes (p # q # r # s # rest) =
     (p * 4 + q div 16) # (q mod 16 * 16 + r div 4) # (r mod 4 * 64 + s) # sextetsToBytes rest"
| "sextetsToBytes [p, q, r] = [p * 4 + q div 16, q mod 16 * 16 + r div 4]"
| "sextetsToBytes [p, q] = [p * 4 + q div 16]"
| "sextetsToBytes _ = []"

definition atob :: "jsstring \<Rightarrow> js_error + nat list" where
  "atob data =
     (let d = stripPadding (filter (\<lambda>c. \<not> isAsciiWhitespace c) data)
      in if length d mod 4 = 1 then Inl InvalidCharacterError
         else if list_ex (\<lambda>c. b64index c = None) d then Inl InvalidCharacterError
         else Inr (sextetsToBytes (List.map_filter b64index d)))"

subsection \<open>Web Crypto and the random source\<close>

text \<open>
  \<open>crypto.subtle\<close> is the platform's, not the repository's: its functions are taken as
  parameters.  \<open>pbkdf2\<close> stands for \<open>importKey\<close> followed by \<open>deriveKey\<close> with a hash,
  an iteration count and a salt; \<open>aes_gcm_decrypt\<close> returns \<open>None\<close> where the platform
  throws \<open>OperationError\<close> (authentication tag mismatch or malformed input).
\<close>

record webcrypto =
  pbkdf2 :: "bytes \<Rightarrow> bytes \<Rightarrow> nat \<Rightarrow> bytes"
  aes_gcm_encrypt :: "bytes \<Rightarrow> bytes \<Rightarrow> bytes \<Rightarrow> bytes"
  aes_gcm_decrypt :: "bytes \<Rightarrow> bytes \<Rightarrow> bytes \<Rightarrow> bytes option"
  sha256 :: "bytes \<Rightarrow> bytes"

text \<open>
  \<open>crypto.getRandomValues(new Uint8Array(n))\<close> reads the next \<open>n\<close> bytes of the
  platform's random source, an infinite sequence of bytes given explicitly.
\<close>

type_synonym entropy = "nat \<Rightarrow> 8 word"

definition getRandomValues :: "nat \<Rightarrow> entropy \<Rightarrow> bytes \<times> entropy" where
  "getRandomValues n e = (map e [0..<n], \<lambda>i. e (i + n))"

section \<open>Credential encryption (src/utils/encryption.js)\<close>

definition deriveKeyFromPin :: "webcrypto \<Rightarrow> jsstring \<Rightarrow> bytes \<Rightarrow> bytes" where
  "deriveKeyFromPin W pin saltBytes = pbkdf2 W (TextEncoder_encode pin) saltBytes 100000"

definition generateSalt :: "entropy \<Rightarrow> bytes \<times> entropy" where
  "generateSalt e = getRandomValues 16 e"

definition generateIV :: "entropy \<Rightarrow> bytes \<times> entropy" where
  "generateIV e = getRandomValues 12 e"

definition arrayBufferToBase64 :: "bytes \<Rightarrow> jsstring" where
  "arrayBufferToBase64 buffer = btoa (map unat buffer)"

definition base64ToArrayBuffer :: "jsstring \<Rightarrow> js_error + bytes" where
  "base64ToArrayBuffer base64 =
     (case atob base64 of Inl e \<Rightarrow> Inl e | Inr binary \<Rightarrow> Inr (map of_nat binary))"

text \<open>\<open>b.toString(16).padStart(2, '0')\<close> for every byte, joined.\<close>

definition arrayBufferToHex :: "bytes \<Rightarrow> jsstring" where
  "arrayBufferToHex buffer = concat (map (\<lambda>b. padStart2 (toString16 (uint b))) buffer)"

text \<open>
  \<open>hexToUint8Array\<close>: the array has \<open>hex.length / 2\<close> elements, rounded down; a write past
  its end (the single last character of an odd-length string) is ignored.  Storing
  \<open>NaN\<close> in a \<open>Uint8Array\<close> stores 0, and other numbers are stored modulo 256.
\<close>

definition hexToUint8Array :: "jsstring \<Rightarrow> bytes" where
  "hexToUint8Array hex =
     map (\<lambda>p. case parseInt16 p of None \<Rightarrow> 0 | Some v \<Rightarrow> word_of_int v)
       (take (length hex div 2) (substrPairs hex))"

definition encryptText :: "webcrypto \<Rightarrow> jsstring \<Rightarrow> bytes \<Rightarrow> bytes \<Rightarrow> jsstring" where
  "encryptText W text key ivBytes =
     arrayBufferToBase64 (aes_gcm_encrypt W key ivBytes (TextEncoder_encode text))"

definition decryptText :: "webcrypto \<Rightarrow> jsstring \<Rightarrow> bytes \<Rightarrow> bytes \<Rightarrow> js_error + jsstring" where
  "decryptText W encryptedText key ivBytes =
     (case base64ToArrayBuffer encryptedText of
        Inl e \<Rightarrow> Inl e
      | Inr encryptedBuffer \<Rightarrow>
          (case aes_gcm_decrypt W key ivBytes encryptedBuffer of
             None \<Rightarrow> Inl OperationError
           | Some decryptedBuffer \<Rightarrow> Inr (TextDecoder_decode decryptedBuffer)))"

text \<open>
  A credential object.  \<open>iv\<close> and \<open>salt\<close> are absent on a decrypted or legacy record; the
  advisory metadata \<open>riskScore\<close> and \<open>riskFactors\<close> is never inspected by the vault and is
  kept abstract.  (The field \<open>id\<close> is named \<open>cred_id\<close>.)
\<close>

record ('r, 'f) credential =
  cred_id :: int
  site :: jsstring
  username :: jsstring
  password :: jsstring
  iv :: "jsstring option"
  salt :: "jsstring option"
  favicon :: jsstring
  riskScore :: 'r
  riskFactors :: 'f

definition encryptCredential ::
  "webcrypto \<Rightarrow> ('r, 'f) credential \<Rightarrow> jsstring \<Rightarrow> entropy \<Rightarrow> ('r, 'f) credential \<times> entropy"
where
  "encryptCredential W credential pin e =
     (let (saltBytes, e1) = generateSalt e;
          (ivBytes, e2) = generateIV e1;
          key = deriveKeyFromPin W pin saltBytes;
          encryptedSite = encryptText W (site credential) key ivBytes;
          encryptedUsername = encryptText W (username credential) key ivBytes;
          encryptedPassword = encryptText W (password credential) key ivBytes
      in (\<lparr>cred_id = cred_id credential,
           site = encryptedSite,
           username = encryptedUsername,
           password = encryptedPassword,
           iv = Some (arrayBufferToHex ivBytes),
           salt = Some (arrayBufferToHex saltBytes),
           favicon = favicon credential,
           riskScore = riskScore credential,
           riskFactors = riskFactors credential\<rparr>, e2))"

text \<open>
  \<open>decryptCredential\<close>: reading \<open>.length\<close> of an absent \<open>iv\<close> or \<open>salt\<close> throws a
  \<open>TypeError\<close>; any field that fails to decrypt throws and no object is returned.
\<close>

definition decryptCredential ::
  "webcrypto \<Rightarrow> ('r, 'f) credential \<Rightarrow> jsstring \<Rightarrow> js_error + ('r, 'f) credential"
where
  "decryptCredential W encryptedCredential pin =
     (case iv encryptedCredential of
        None \<Rightarrow> Inl TypeError
      | Some ivHex \<Rightarrow>
     (case salt encryptedCredential of
        None \<Rightarrow> Inl TypeError
      | Some saltHex \<Rightarrow>
     (let ivBytes = hexToUint8Array ivHex;
          saltBytes = hexToUint8Array saltHex;
          key = deriveKeyFromPin W pin saltBytes
      in case decryptText W (site encryptedCredential) key ivBytes of
           Inl e \<Rightarrow> Inl e
         | Inr site' \<Rightarrow>
        (case decryptText W (username encryptedCredential) key ivBytes of
           Inl e \<Rightarrow> Inl e
         | Inr username' \<Rightarrow>
        (case decryptText W (password encryptedCredential) key ivBytes of
           Inl e \<Rightarrow> Inl e
         | Inr password' \<Rightarrow>
             Inr \<lparr>cred_id = cred_id encryptedCredential,
                  site = site',
                  username = username',
                  password = password',
                  iv = None,
                  salt = None,
                  favicon = favicon encryptedCredential,
                  riskScore = riskScore encryptedCredential,
                  riskFactors = riskFactors encryptedCredential\<rparr>)))))"

section \<open>Session manager (src/utils/pinAuth.js)\<close>

text \<open>
  \<open>getSessionKey\<close>: \<open>key ^= extId.charCodeAt(i) * (i + 1)\<close> over the extension id.  The
  operator \<open>^\<close> works on 32-bit integers (ToInt32 of both operands), and the result is read
  as a signed 32-bit integer.
\<close>

fun getSessionKeyLoop :: "nat \<Rightarrow> 32 word \<Rightarrow> jsstring \<Rightarrow> 32 word" where
  "getSessionKeyLoop i key [] = key"
| "getSessionKeyLoop i key (c # cs) =
     getSessionKeyLoop (i + 1) (key XOR of_nat (unat c * (i + 1))) cs"

definition getSessionKey :: "jsstring \<Rightarrow> int" where
  "getSessionKey extId = sint (getSessionKeyLoop 0 0 extId)"

text \<open>
  \<open>encryptSessionPin\<close>: \<open>bytes.push(pin.charCodeAt(i) ^ ((key + i) % 256))\<close>, then every
  number is written with \<open>toString(16).padStart(2, '0')\<close> and the pieces are joined.
\<close>

fun xorPinLoop :: "int \<Rightarrow> nat \<Rightarrow> jsstring \<Rightarrow> int list" where
  "xorPinLoop key i [] = []"
| "xorPinLoop key i (c # cs) =
     (uint c XOR js_rem (key + int i) 256) # xorPinLoop key (i + 1) cs"

definition encryptSessionPin :: "jsstring \<Rightarrow> jsstring \<Rightarrow> jsstring" where
  "encryptSessionPin extId pin =
     concat (map (\<lambda>b. padStart2 (toString16 b)) (xorPinLoop (getSessionKey extId) 0 pin))"

text \<open>
  \<open>decryptSessionPin\<close>: the hex string is cut into pairs, each parsed with
  \<open>parseInt(.., 16)\<close>; then \<open>String.fromCharCode(bytes[i] ^ ((key + i) % 256))\<close>.  A \<open>NaN\<close>
  operand of \<open>^\<close> counts as 0, and \<open>fromCharCode\<close> keeps the low 16 bits.
\<close>

fun unxorLoop :: "int \<Rightarrow> nat \<Rightarrow> int option list \<Rightarrow> jsstring" where
  "unxorLoop key i [] = []"
| "unxorLoop key i (b # bs) =
     word_of_int ((case b of None \<Rightarrow> 0 | Some v \<Rightarrow> v) XOR js_rem (key + int i) 256)
       # unxorLoop key (i + 1) bs"

definition decryptSessionPin :: "jsstring \<Rightarrow> jsstring \<Rightarrow> jsstring" where
  "decryptSessionPin extId encrypted =
     unxorLoop (getSessionKey extId) 0 (map parseInt16 (substrPairs encrypted))"

definition hashPin :: "webcrypto \<Rightarrow> jsstring \<Rightarrow> jsstring" where
  "hashPin W pin = arrayBufferToHex (sha256 W (TextEncoder_encode pin))"

definition verifyPin :: "webcrypto \<Rightarrow> jsstring \<Rightarrow> jsstring \<Rightarrow> bool" where
  "verifyPin W pin storedHash = (hashPin W pin = storedHash)"

text \<open>The keys of \<open>chrome.storage.local\<close> that the PIN and session code reads and writes.\<close>

record session =
  expiry :: int
  ep :: jsstring

record local_storage =
  rf_pin_hash :: "jsstring option"
  rf_pin_session :: "session option"

definition isPinSetup :: "local_storage \<Rightarrow> bool" where
  "isPinSetup st = truthy_opt (rf_pin_hash st)"

definition savePin :: "webcrypto \<Rightarrow> jsstring \<Rightarrow> local_storage \<Rightarrow> local_storage" where
  "savePin W pin st = st\<lparr>rf_pin_hash := Some (hashPin W pin)\<rparr>"

text \<open>Time is \<open>Date.now()\<close>, in milliseconds, passed in where the code reads the clock.\<close>

definition isSessionUnlocked :: "int \<Rightarrow> local_storage \<Rightarrow> bool \<times> local_storage" where
  "isSessionUnlocked now st =
     (case rf_pin_session st of
        None \<Rightarrow> (False, st)
      | Some s \<Rightarrow>
          if now > expiry s then (False, st\<lparr>rf_pin_session := None\<rparr>) else (True, st))"

definition SESSION_DURATION_MINUTES :: int where
  "SESSION_DURATION_MINUTES = 30"

definition createSession :: "jsstring \<Rightarrow> jsstring \<Rightarrow> int \<Rightarrow> local_storage \<Rightarrow> local_storage" where
  "createSession extId pin now st =
     st\<lparr>rf_pin_session :=
          Some \<lparr>expiry = now + SESSION_DURATION_MINUTES * 60 * 1000,
                ep = encryptSessionPin extId pin\<rparr>\<rparr>"

text \<open>
  \<open>getSessionPin\<close> passes \<open>null\<close> (here \<open>None\<close>) or the decoded PIN to its callback.
  \<open>lastError\<close> is \<open>chrome.runtime.lastError\<close> after the read of the storage.
\<close>

definition getSessionPin ::
  "jsstring \<Rightarrow> bool \<Rightarrow> int \<Rightarrow> local_storage \<Rightarrow> jsstring option \<times> local_storage"
where
  "getSessionPin extId lastError now st =
     (if lastError then (None, st)
      else case rf_pin_session st of
        None \<Rightarrow> (None, st)
      | Some s \<Rightarrow>
          if now > expiry s then (None, st\<lparr>rf_pin_session := None\<rparr>)
          else if \<not> truthy (ep s) then (None, st)
          else (Some (decryptSessionPin extId (ep s)), st))"

definition clearSession :: "local_storage \<Rightarrow> local_storage" where
  "clearSession st = st\<lparr>rf_pin_session := None\<rparr>"

text \<open>
  \<open>extendSession\<close>: \<open>getSessionPin\<close> reads the clock (\<open>now\<close>), and \<open>createSession\<close>, called
  from its callback, reads it again (\<open>now'\<close>).
\<close>

definition extendSession ::
  "jsstring \<Rightarrow> bool \<Rightarrow> int \<Rightarrow> int \<Rightarrow> local_storage \<Rightarrow> local_storage"
where
  "extendSession extId lastError now now' st =
     (case getSessionPin extId lastError now st of
        (Some pin, st') \<Rightarrow> if truthy pin then createSession extId pin now' st' else st'
      | (None, st') \<Rightarrow> st')"

section \<open>PIN set-up (src/components/PinSetup.jsx, handlePinSetup)\<close>

text \<open>
  \<open>handleSubmit\<close> either shows an error message or calls \<open>onPinSet(pin)\<close>.  The regular
  expression \<open>/^\d+$/\<close> accepts a non-empty string of the digits 0 to 9.
\<close>

datatype pin_error =
    PinMustBe4to6Digits
  | PinMustContainOnlyNumbers
  | PinsDoNotMatch

definition isDigits :: "jsstring \<Rightarrow> bool" where
  "isDigits s = (s \<noteq> [] \<and> list_all (\<lambda>c. 0x30 \<le> c \<and> c \<le> 0x39) s)"

definition handleSubmit :: "jsstring \<Rightarrow> jsstring \<Rightarrow> pin_error + jsstring" where
  "handleSubmit pin confirmPin =
     (if length pin < 4 \<or> length pin > 6 then Inl PinMustBe4to6Digits
      else if \<not> isDigits pin then Inl PinMustContainOnlyNumbers
      else if pin \<noteq> confirmPin then Inl PinsDoNotMatch
      else Inr pin)"

text \<open>\<open>handlePinSetup\<close>: \<open>savePin\<close>, then \<open>createSession\<close> from its callback.\<close>

definition handlePinSetup ::
  "webcrypto \<Rightarrow> jsstring \<Rightarrow> int \<Rightarrow> jsstring \<Rightarrow> local_storage \<Rightarrow> local_storage"
where
  "handlePinSetup W extId now pin st = createSession extId pin now (savePin W pin st)"

text \<open>The set-up form with \<open>onPinSet = handlePinSetup\<close>, as the popup renders it.\<close>

definition submitPinSetup ::
  "webcrypto \<Rightarrow> jsstring \<Rightarrow> int \<Rightarrow> jsstring \<Rightarrow> jsstring \<Rightarrow> local_storage
     \<Rightarrow> (pin_error + unit) \<times> local_storage"
where
  "submitPinSetup W extId now pin confirmPin st =
     (case handleSubmit pin confirmPin of
        Inl err \<Rightarrow> (Inl err, st)
      | Inr p \<Rightarrow> (Inr (), handlePinSetup W extId now p st))"

text \<open>
  The PIN policy in the spec's words: 4 to 6 digits, numeric only.  It is compared below
  with what \<open>handleSubmit\<close> checks.
\<close>

definition pinPolicy :: "jsstring \<Rightarrow> bool" where
  "pinPolicy pin = (4 \<le> length pin \<and> length pin \<le> 6 \<and> list_all (\<lambda>c. 0x30 \<le> c \<and> c \<le> 0x39) pin)"

section \<open>Vault store (src/RFPasswordManagerPopup.jsx)\<close>

text \<open>The part of the popup's React state that the vault operations set.\<close>

record ('r, 'f) popup_state =
  credentials :: "('r, 'f) credential list"
  currentPin :: "jsstring option"
  tamperedCount :: nat
  pinPromptVisible :: bool

text \<open>\<open>cred.iv && cred.salt\<close>\<close>

definition isEncrypted :: "('r, 'f) credential \<Rightarrow> bool" where
  "isEncrypted cred = (truthy_opt (iv cred) \<and> truthy_opt (salt cred))"

text \<open>\<open>!cred.iv && !cred.salt && cred.password\<close>\<close>

definition isPlaintext :: "('r, 'f) credential \<Rightarrow> bool" where
  "isPlaintext cred =
     (\<not> truthy_opt (iv cred) \<and> \<not> truthy_opt (salt cred) \<and> truthy (password cred))"

subsection \<open>The load effect\<close>

text \<open>
  The loop over the stored list: \<open>decryptedList.push\<close> appends, and the \<open>catch\<close> block
  counts the record and pushes nothing.
\<close>

fun decryptLoop ::
  "webcrypto \<Rightarrow> jsstring \<Rightarrow> ('r, 'f) credential list \<Rightarrow> ('r, 'f) credential list \<Rightarrow> nat
     \<Rightarrow> ('r, 'f) credential list \<times> nat"
where
  "decryptLoop W pin [] decryptedList tamperedCredentials =
     (decryptedList, tamperedCredentials)"
| "decryptLoop W pin (cred # rest) decryptedList tamperedCredentials =
     (if isEncrypted cred then
        (case decryptCredential W cred pin of
           Inr decrypted \<Rightarrow>
             decryptLoop W pin rest (decryptedList @ [decrypted]) tamperedCredentials
         | Inl err \<Rightarrow> decryptLoop W pin rest decryptedList (tamperedCredentials + 1))
      else decryptLoop W pin rest (decryptedList @ [cred]) tamperedCredentials)"

text \<open>The migration's loop over \<open>plaintextCreds\<close>; every call draws its own salt and IV.\<close>

fun encryptLoop ::
  "webcrypto \<Rightarrow> jsstring \<Rightarrow> ('r, 'f) credential list \<Rightarrow> ('r, 'f) credential list \<Rightarrow> entropy
     \<Rightarrow> ('r, 'f) credential list \<times> entropy"
where
  "encryptLoop W pin [] encryptedMigrated e = (encryptedMigrated, e)"
| "encryptLoop W pin (plainCred # rest) encryptedMigrated e =
     (case encryptCredential W plainCred pin e of
        (encrypted, e') \<Rightarrow> encryptLoop W pin rest (encryptedMigrated @ [encrypted]) e')"

text \<open>
  \<open>currentStorageList.map(..)\<close>: a stored plaintext record is replaced by the first
  migrated record with its \<open>id\<close>, and kept when there is none.
\<close>

definition newStorageList ::
  "('r, 'f) credential list \<Rightarrow> ('r, 'f) credential list \<Rightarrow> ('r, 'f) credential list"
where
  "newStorageList encryptedMigrated currentStorageList =
     map (\<lambda>cred.
            if isPlaintext cred then
              (case find (\<lambda>e. cred_id e = cred_id cred) encryptedMigrated of
                 Some encrypted \<Rightarrow> encrypted
               | None \<Rightarrow> cred)
            else cred)
       currentStorageList"

text \<open>
  The migration block and \<open>setCredentials(list)\<close>.  The result is the stored list
  \<open>rf_creds\<close> afterwards, the popup's state and the random source.
\<close>

definition migrate ::
  "webcrypto \<Rightarrow> jsstring \<Rightarrow> ('r, 'f) credential list \<Rightarrow> ('r, 'f) credential list
     \<Rightarrow> ('r, 'f) popup_state \<Rightarrow> entropy
     \<Rightarrow> ('r, 'f) credential list \<times> ('r, 'f) popup_state \<times> entropy"
where
  "migrate W pin rf_creds list ui e =
     (let plaintextCreds = filter isPlaintext list
      in if plaintextCreds \<noteq> [] then
           (case encryptLoop W pin plaintextCreds [] e of
              (encryptedMigrated, e') \<Rightarrow>
                if encryptedMigrated \<noteq> []
                then (newStorageList encryptedMigrated rf_creds, ui\<lparr>credentials := list\<rparr>, e')
                else (rf_creds, ui\<lparr>credentials := list\<rparr>, e'))
         else (rf_creds, ui\<lparr>credentials := list\<rparr>, e))"

text \<open>
  The effect that runs when the vault is unlocked, from the callback of \<open>getSessionPin\<close>
  on: \<open>pin\<close> is what \<open>getSessionPin\<close> passed, \<open>rf_creds\<close> the stored list.
\<close>

definition loadWithPin ::
  "webcrypto \<Rightarrow> jsstring \<Rightarrow> ('r, 'f) credential list \<Rightarrow> ('r, 'f) popup_state \<Rightarrow> entropy
     \<Rightarrow> ('r, 'f) credential list \<times> ('r, 'f) popup_state \<times> entropy"
where
  "loadWithPin W pin rf_creds ui e =
     (let ui1 = ui\<lparr>currentPin := Some pin\<rparr>
      in if rf_creds \<noteq> [] then
           (case decryptLoop W pin rf_creds [] 0 of
              (decryptedList, tamperedCredentials) \<Rightarrow>
                migrate W pin rf_creds decryptedList
                  (if tamperedCredentials > 0
                   then ui1\<lparr>tamperedCount := tamperedCredentials\<rparr> else ui1) e)
         else migrate W pin rf_creds rf_creds ui1 e)"

definition loadWithoutPin ::
  "('r, 'f) credential list \<Rightarrow> ('r, 'f) popup_state \<Rightarrow> entropy
     \<Rightarrow> ('r, 'f) credential list \<times> ('r, 'f) popup_state \<times> entropy"
where
  "loadWithoutPin rf_creds ui e =
     (if list_ex isEncrypted rf_creds then (rf_creds, ui\<lparr>pinPromptVisible := True\<rparr>, e)
      else (rf_creds, ui\<lparr>credentials := rf_creds\<rparr>, e))"

definition loadEffect ::
  "webcrypto \<Rightarrow> jsstring option \<Rightarrow> ('r, 'f) credential list \<Rightarrow> ('r, 'f) popup_state \<Rightarrow> entropy
     \<Rightarrow> ('r, 'f) credential list \<times> ('r, 'f) popup_state \<times> entropy"
where
  "loadEffect W pin rf_creds ui e =
     (case pin of
        None \<Rightarrow> loadWithoutPin rf_creds ui e
      | Some p \<Rightarrow> if truthy p then loadWithPin W p rf_creds ui e else loadWithoutPin rf_creds ui e)"

subsection \<open>Saving and cleaning up\<close>

text \<open>
  The string operations that \<open>performSave\<close> applies to the form: \<open>String.prototype.trim\<close>,
  the tests \<open>/\d/\<close>, \<open>/[^A-Za-z0-9]/\<close> and \<open>/^https?:\/\//i\<close>, and \<open>includes\<close>, \<open>split\<close>,
  \<open>findIndex\<close>, \<open>slice(0, n)\<close> (which is \<open>take n\<close>) and \<open>join\<close> on the path of the site.
  \<open>ascii\<close> writes a string literal of the source as code units.
\<close>

definition ascii :: "string \<Rightarrow> jsstring" where
  "ascii s = map (\<lambda>c. of_nat (of_char c)) s"

definition trim :: "jsstring \<Rightarrow> jsstring" where
  "trim s = rev (dropWhile isStrWhiteSpaceChar (rev (dropWhile isStrWhiteSpaceChar s)))"

definition hasNumber :: "jsstring \<Rightarrow> bool" where
  "hasNumber s = list_ex (\<lambda>c. 0x30 \<le> c \<and> c \<le> 0x39) s"

definition hasSpecial :: "jsstring \<Rightarrow> bool" where
  "hasSpecial s =
     list_ex (\<lambda>c. \<not> ((0x41 \<le> c \<and> c \<le> 0x5A) \<or> (0x61 \<le> c \<and> c \<le> 0x7A)
                    \<or> (0x30 \<le> c \<and> c \<le> 0x39))) s"

definition toLowerAscii :: "16 word \<Rightarrow> 16 word" where
  "toLowerAscii c = (if 0x41 \<le> c \<and> c \<le> 0x5A then c + 0x20 else c)"

definition hasHttpScheme :: "jsstring \<Rightarrow> bool" where
  "hasHttpScheme s =
     (map toLowerAscii (take 7 s) = ascii ''http://''
      \<or> map toLowerAscii (take 8 s) = ascii ''https://'')"

fun str_includes :: "jsstring \<Rightarrow> jsstring \<Rightarrow> bool" where
  "str_includes [] sub = (sub = [])"
| "str_includes (c # cs) sub = (take (length sub) (c # cs) = sub \<or> str_includes cs sub)"

fun splitOn :: "16 word \<Rightarrow> jsstring \<Rightarrow> jsstring list" where
  "splitOn sep [] = [[]]"
| "splitOn sep (c # cs) =
     (if c = sep then [] # splitOn sep cs
      else (case splitOn sep cs of [] \<Rightarrow> [[c]] | p # ps \<Rightarrow> (c # p) # ps))"

fun joinWith :: "16 word \<Rightarrow> jsstring list \<Rightarrow> jsstring" where
  "joinWith sep [] = []"
| "joinWith sep [p] = p"
| "joinWith sep (p # q # ps) = p @ sep # joinWith sep (q # ps)"

fun findIndex :: "('a \<Rightarrow> bool) \<Rightarrow> 'a list \<Rightarrow> nat option" where
  "findIndex P [] = None"
| "findIndex P (x # xs) = (if P x then Some 0 else map_option Suc (findIndex P xs))"

text \<open>
  The path as \<open>performSave\<close> stores it: cut after the first segment \<open>signin\<close> or \<open>login\<close>
  when the path contains \<open>/signin/\<close> or \<open>/login/\<close>.
\<close>

definition cleanPathname :: "jsstring \<Rightarrow> jsstring" where
  "cleanPathname pathname =
     (if str_includes pathname (ascii ''/signin/'') \<or> str_includes pathname (ascii ''/login/'') then
        (let parts = splitOn 0x2F pathname
         in case findIndex (\<lambda>p. p = ascii ''signin'' \<or> p = ascii ''login'') parts of
              Some signinIndex \<Rightarrow> joinWith 0x2F (take (signinIndex + 1) parts)
            | None \<Rightarrow> pathname)
      else pathname)"

text \<open>
  The component state that \<open>performSave\<close> reads besides the list: the form, and the risk
  assessment \<open>siteRisk\<close> of the site (\<open>null\<close> is \<open>None\<close>; \<open>score\<close> is \<open>Some\<close> when it is a
  number, \<open>features\<close> is \<open>Some\<close> when it is set).  The status message that it leaves.
\<close>

record 'r site_risk =
  score :: "'r option"
  features :: "(jsstring \<times> 'r) list option"

record credential_form =
  form_site :: jsstring
  form_username :: jsstring
  form_password :: jsstring

datatype save_status = PleaseEnterThePassword | PasswordTooWeak | SavedEncrypted

text \<open>
  The loop of \<open>performSave\<close> that rebuilds the display list from the stored list.  Its
  \<open>catch\<close> block pushes the stored record (\<open>decryptedForDisplay.push(cred)\<close>).
\<close>

fun displayLoop ::
  "webcrypto \<Rightarrow> jsstring \<Rightarrow> ('r, 'f) credential list \<Rightarrow> ('r, 'f) credential list
     \<Rightarrow> ('r, 'f) credential list"
where
  "displayLoop W pin [] decryptedForDisplay = decryptedForDisplay"
| "displayLoop W pin (cred # rest) decryptedForDisplay =
     (if isEncrypted cred then
        (case decryptCredential W cred pin of
           Inr dec \<Rightarrow> displayLoop W pin rest (decryptedForDisplay @ [dec])
         | Inl err \<Rightarrow> displayLoop W pin rest (decryptedForDisplay @ [cred]))
      else displayLoop W pin rest (decryptedForDisplay @ [cred]))"

text \<open>
  \<open>performSave(s, pin)\<close>.  The password of the form is checked first (not empty after
  trimming, at least 6 code units, a digit, a character that is neither letter nor
  digit); a refused password sets the status message and returns, the store and the
  list untouched.  Otherwise the site is normalised, the record \<open>newCred\<close> is built with
  \<open>id = Date.now()\<close>, encrypted and put first in the stored list, and the display list is
  rebuilt.  \<open>new URL\<close> is the platform's: \<open>newURL\<close> gives \<open>origin\<close> and \<open>pathname\<close>, or \<open>None\<close>
  where the constructor throws.  The empty object \<open>{}\<close> of \<open>riskFactors\<close> is the empty list.
\<close>

definition performSave ::
  "webcrypto \<Rightarrow> (jsstring \<Rightarrow> (jsstring \<times> jsstring) option) \<Rightarrow> credential_form
     \<Rightarrow> 'r site_risk option \<Rightarrow> int \<Rightarrow> jsstring \<Rightarrow> jsstring
     \<Rightarrow> ('r option, (jsstring \<times> 'r) list) credential list
     \<Rightarrow> ('r option, (jsstring \<times> 'r) list) popup_state \<Rightarrow> entropy
     \<Rightarrow> save_status \<times> ('r option, (jsstring \<times> 'r) list) credential list
         \<times> ('r option, (jsstring \<times> 'r) list) popup_state \<times> entropy"
where
  "performSave W newURL form siteRisk now s pin rf_creds ui e =
     (let pwd = trim (form_password form);
          minLen = 6
      in if \<not> truthy pwd then (PleaseEnterThePassword, rf_creds, ui, e)
         else if length pwd < minLen \<or> \<not> hasNumber pwd \<or> \<not> hasSpecial pwd
         then (PasswordTooWeak, rf_creds, ui, e)
         else
           (let siteUrl = (if hasHttpScheme s then s else ascii ''https://'' @ s);
                favicon' = (case newURL siteUrl of
                              Some (origin, pathname) \<Rightarrow> origin @ ascii ''/favicon.ico''
                            | None \<Rightarrow> []);
                normalizedSite = (case newURL siteUrl of
                                    Some (origin, pathname) \<Rightarrow> origin @ cleanPathname pathname
                                  | None \<Rightarrow> form_site form);
                newCred = \<lparr>cred_id = now,
                           site = normalizedSite,
                           username = form_username form,
                           password = form_password form,
                           iv = None,
                           salt = None,
                           favicon = favicon',
                           riskScore = (case siteRisk of None \<Rightarrow> None | Some r \<Rightarrow> score r),
                           riskFactors = (case siteRisk of
                                            None \<Rightarrow> []
                                          | Some r \<Rightarrow>
                                              (case features r of None \<Rightarrow> [] | Some f \<Rightarrow> f))\<rparr>
            in case encryptCredential W newCred pin e of
                 (encryptedCred, e') \<Rightarrow>
                   (let finalStorageList = encryptedCred # rf_creds
                    in (SavedEncrypted, finalStorageList,
                        ui\<lparr>credentials := displayLoop W pin finalStorageList []\<rparr>, e'))))"

text \<open>
  \<open>onClearCorrupted\<close>: the stored records that still fail to decrypt are dropped, the
  rest is stored, the tamper count is reset and the load effect runs again.
\<close>

fun cleanupLoop ::
  "webcrypto \<Rightarrow> jsstring \<Rightarrow> ('r, 'f) credential list \<Rightarrow> ('r, 'f) credential list \<Rightarrow> nat
     \<Rightarrow> ('r, 'f) credential list \<times> nat"
where
  "cleanupLoop W pin [] validCredentials removedCount = (validCredentials, removedCount)"
| "cleanupLoop W pin (cred # rest) validCredentials removedCount =
     (if isEncrypted cred then
        (case decryptCredential W cred pin of
           Inr dec \<Rightarrow> cleanupLoop W pin rest (validCredentials @ [cred]) removedCount
         | Inl err \<Rightarrow> cleanupLoop W pin rest validCredentials (removedCount + 1))
      else cleanupLoop W pin rest (validCredentials @ [cred]) removedCount)"

definition onClearCorrupted ::
  "webcrypto \<Rightarrow> jsstring option \<Rightarrow> ('r, 'f) credential list \<Rightarrow> ('r, 'f) popup_state \<Rightarrow> entropy
     \<Rightarrow> ('r, 'f) credential list \<times> ('r, 'f) popup_state \<times> entropy"
where
  "onClearCorrupted W pin rf_creds ui e =
     (case pin of
        None \<Rightarrow> (rf_creds, ui, e)
      | Some p \<Rightarrow>
          if \<not> truthy p then (rf_creds, ui, e)
          else (case cleanupLoop W p rf_creds [] 0 of
                  (validCredentials, removedCount) \<Rightarrow>
                    loadEffect W pin validCredentials (ui\<lparr>tamperedCount := 0\<rparr>) e))"

section \<open>Notions used in the statements\<close>

text \<open>
  The assumption on the platform that the round trip rests on: AES-GCM decryption under
  the key and IV of the encryption returns the plaintext.
\<close>

definition aeadCorrect :: "webcrypto \<Rightarrow> bool" where
  "aeadCorrect W =
     (\<forall>key ivBytes data. aes_gcm_decrypt W key ivBytes (aes_gcm_encrypt W key ivBytes data) = Some data)"

text \<open>
  \<open>String.prototype.isWellFormed\<close>: no surrogate stands alone.  Only such strings are
  representable in UTF-8, and a leading \<open>U+FEFF\<close> is what \<open>TextDecoder\<close> drops.
\<close>

fun wellFormedUnits :: "nat list \<Rightarrow> bool" where
  "wellFormedUnits [] = True"
| "wellFormedUnits (c # cs) =
     (if isHighSurrogate c then
        (case cs of [] \<Rightarrow> False | d # ds \<Rightarrow> isLowSurrogate d \<and> wellFormedUnits ds)
      else \<not> isLowSurrogate c \<and> wellFormedUnits cs)"

definition isWellFormed :: "jsstring \<Rightarrow> bool" where
  "isWellFormed s = wellFormedUnits (map unat s)"

definition textRoundTrips :: "jsstring \<Rightarrow> bool" where
  "textRoundTrips s = (isWellFormed s \<and> (case s of [] \<Rightarrow> True | c # cs \<Rightarrow> c \<noteq> 0xFEFF))"

text \<open>Scalar values: the code points that UTF-8 encodes.\<close>

definition isScalar :: "nat \<Rightarrow> bool" where
  "isScalar cp = (cp < 0x110000 \<and> \<not> (0xD800 \<le> cp \<and> cp \<le> 0xDFFF))"

text \<open>The salt and the IV that \<open>encryptCredential\<close> draws from a random source.\<close>

definition drawnSalt :: "entropy \<Rightarrow> bytes" where
  "drawnSalt e = fst (generateSalt e)"

definition drawnIV :: "entropy \<Rightarrow> bytes" where
  "drawnIV e = fst (generateIV (snd (generateSalt e)))"

text \<open>The 6-bit groups and the number of \<open>=\<close> signs that \<open>btoa\<close> writes.\<close>

fun sextets :: "nat list \<Rightarrow> nat list" where
  "sextets [] = []"
| "sextets [a] = [a div 4, a mod 4 * 16]"
| "sextets [a, b] = [a div 4, a mod 4 * 16 + b div 16, b mod 16 * 4]"
| "sextets (a # b # c # rest) =
     (a div 4) # (a mod 4 * 16 + b div 16) # (b mod 16 * 4 + c div 64) # (c mod 64) # sextets rest"

fun padding :: "nat list \<Rightarrow> nat" where
  "padding [] = 0"
| "padding [a] = 2"
| "padding [a, b] = 1"
| "padding (a # b # c # rest) = padding rest"

text \<open>
  What one stored record contributes to the list shown by the load effect, and the
  records that the load effect counts as tampered.
\<close>

definition shown :: "webcrypto \<Rightarrow> jsstring \<Rightarrow> ('r, 'f) credential \<Rightarrow> ('r, 'f) credential list" where
  "shown W pin cred =
     (if isEncrypted cred then
        (case decryptCredential W cred pin of Inr decrypted \<Rightarrow> [decrypted] | Inl err \<Rightarrow> [])
      else [cred])"

definition rejected :: "webcrypto \<Rightarrow> jsstring \<Rightarrow> ('r, 'f) credential \<Rightarrow> bool" where
  "rejected W pin cred = (isEncrypted cred \<and> isl (decryptCredential W cred pin))"


text \<open>The record \<open>newCred\<close> that \<open>performSave\<close> builds from the form.\<close>

definition newCredential ::
  "(jsstring \<Rightarrow> (jsstring \<times> jsstring) option) \<Rightarrow> credential_form \<Rightarrow> 'r site_risk option \<Rightarrow> int
     \<Rightarrow> jsstring \<Rightarrow> ('r option, (jsstring \<times> 'r) list) credential"
where
  "newCredential newURL form siteRisk now s =
     (let siteUrl = (if hasHttpScheme s then s else ascii ''https://'' @ s)
      in \<lparr>cred_id = now,
           site = (case newURL siteUrl of
                     Some (origin, pathname) \<Rightarrow> origin @ cleanPathname pathname
                   | None \<Rightarrow> form_site form),
           username = form_username form,
           password = form_password form,
           iv = None,
           salt = None,
           favicon = (case newURL siteUrl of
                        Some (origin, pathname) \<Rightarrow> origin @ ascii ''/favicon.ico''
                      | None \<Rightarrow> []),
           riskScore = (case siteRisk of None \<Rightarrow> None | Some r \<Rightarrow> score r),
           riskFactors = (case siteRisk of
                            None \<Rightarrow> []
                          | Some r \<Rightarrow> (case features r of None \<Rightarrow> [] | Some f \<Rightarrow> f))\<rparr>)"


section \<open>Fixtures\<close>

text \<open>
  Concrete values at which the theorems below are instantiated.  \<open>fixtureCrypto\<close> is a
  stand-in for the platform with the one property the vault relies on, that decryption
  under the same key and IV returns the plaintext and under another key or IV fails; it
  is not AES.
\<close>

definition fixtureCrypto :: webcrypto where
  "fixtureCrypto =
     \<lparr>pbkdf2 = (\<lambda>pw saltBytes n. pw @ saltBytes),
      aes_gcm_encrypt = (\<lambda>key ivBytes data. key @ ivBytes @ data),
      aes_gcm_decrypt = (\<lambda>key ivBytes buffer.
         if take (length key + length ivBytes) buffer = key @ ivBytes
         then Some (drop (length key + length ivBytes) buffer) else None),
      sha256 = (\<lambda>data. data)\<rparr>"

definition fixtureEntropy :: entropy where
  "fixtureEntropy = (\<lambda>i. of_nat i)"

definition fixtureExtId :: jsstring where
  "fixtureExtId = map of_nat [97, 98, 99, 100, 101, 102, 103, 104, 105, 106, 107, 108, 109,
     110, 111, 112, 97, 98, 99, 100, 101, 102, 103, 104, 105, 106, 107, 108, 109, 110, 111, 112]"

definition fixturePin :: jsstring where
  "fixturePin = [0x31, 0x32, 0x33, 0x34]"

definition fixtureStorage :: local_storage where
  "fixtureStorage = \<lparr>rf_pin_hash = None, rf_pin_session = None\<rparr>"

definition fixtureCred :: "jsstring \<Rightarrow> (unit, unit) credential" where
  "fixtureCred pw =
     \<lparr>cred_id = 1, site = [0x61], username = [0x62], password = pw, iv = None, salt = None,
      favicon = [], riskScore = (), riskFactors = ()\<rparr>"

definition fixtureUi :: "(unit, unit) popup_state" where
  "fixtureUi = \<lparr>credentials = [], currentPin = None, tamperedCount = 0,
     pinPromptVisible = False\<rparr>"

text \<open>
  A stored record encrypted with \<open>fixturePin\<close>, and the same record after its \<open>site\<close>
  ciphertext was overwritten with a string that is not base64.
\<close>

definition fixtureEncrypted :: "(unit, unit) credential" where
  "fixtureEncrypted =
     fst (encryptCredential fixtureCrypto (fixtureCred [0x70]) fixturePin fixtureEntropy)"

definition fixtureTampered :: "(unit, unit) credential" where
  "fixtureTampered = fixtureEncrypted\<lparr>site := [0x21]\<rparr>"



text \<open>
  A save: the form with the password \<open>Abc123!\<close> for the site \<open>a.b\<close>, the answer of
  \<open>new URL\<close> for it, a risk assessment, a stored record that has \<open>iv\<close> and \<open>salt\<close> and does
  not decrypt (its \<open>site\<close> is not base64), and the record that the save builds at time 5.
\<close>

definition fixtureForm :: credential_form where
  "fixtureForm = \<lparr>form_site = ascii ''a.b'', form_username = ascii ''b'',
     form_password = ascii ''Abc123!''\<rparr>"

definition fixtureURL :: "jsstring \<Rightarrow> (jsstring \<times> jsstring) option" where
  "fixtureURL u =
     (if u = ascii ''https://a.b'' then Some (ascii ''https://a.b'', ascii ''/'') else None)"

definition fixtureSiteRisk :: "unit site_risk option" where
  "fixtureSiteRisk = Some \<lparr>score = Some (), features = Some []\<rparr>"

definition fixtureStoredBad :: "(unit option, (jsstring \<times> unit) list) credential" where
  "fixtureStoredBad =
     \<lparr>cred_id = 1, site = ascii ''!'', username = ascii ''x'', password = ascii ''y'',
      iv = Some (ascii ''00''), salt = Some (ascii ''00''), favicon = [], riskScore = None,
      riskFactors = []\<rparr>"

definition fixtureSaveUi :: "(unit option, (jsstring \<times> unit) list) popup_state" where
  "fixtureSaveUi = \<lparr>credentials = [], currentPin = None, tamperedCount = 0,
     pinPromptVisible = False\<rparr>"

definition fixtureNewCred :: "(unit option, (jsstring \<times> unit) list) credential" where
  "fixtureNewCred =
     \<lparr>cred_id = 5, site = ascii ''https://a.b/'', username = ascii ''b'',
      password = ascii ''Abc123!'', iv = None, salt = None,
      favicon = ascii ''https://a.b/favicon.ico'', riskScore = Some (), riskFactors = []\<rparr>"

section \<open>The session obfuscation is reversible\<close>

lemma of_nat_bit31: "n < 2 ^ 31 \<Longrightarrow> \<not> bit (of_nat n :: 32 word) 31"
proof -
  assume "n < 2 ^ 31"
  then have "\<not> bit n 31" by (simp add: bit_iff_odd)
  then show ?thesis by (simp add: bit_of_nat_iff)
qed

lemma keyloop_bit31:
  "\<not> bit key 31 \<Longrightarrow> i + length cs \<le> 32768 \<Longrightarrow> \<not> bit (getSessionKeyLoop i key cs) 31"
proof (induction cs arbitrary: i key)
  case Nil
  then show ?case by simp
next
  case (Cons c cs)
  have "unat c < 65536" using unsigned_less [of c] by simp
  moreover have "i + 1 \<le> 32768" using Cons.prems by simp
  ultimately have "unat c * (i + 1) \<le> 65535 * 32768"
    by (intro mult_mono) auto
  then have "unat c * (i + 1) < 2 ^ 31" by simp
  then have "\<not> bit (of_nat (unat c * (i + 1)) :: 32 word) 31" by (rule of_nat_bit31)
  with Cons.prems have "\<not> bit (key XOR of_nat (unat c * (i + 1))) 31"
    by (simp add: bit_xor_iff)
  then show ?case using Cons.IH [of "key XOR of_nat (unat c * (i + 1))" "i + 1"] Cons.prems
    by simp
qed

lemma getSessionKey_nonneg: "length extId \<le> 32768 \<Longrightarrow> 0 \<le> getSessionKey extId"
proof -
  assume "length extId \<le> 32768"
  then have "\<not> bit (getSessionKeyLoop 0 0 extId) 31"
    using keyloop_bit31 [of 0 0 extId] by simp
  then show ?thesis
    unfolding getSessionKey_def using bit_last_iff [of "getSessionKeyLoop 0 0 extId"] by simp
qed

lemma hexDigits_byte: "n < 256 \<Longrightarrow> padStart2 (hexDigits n) = [hexdigit (n div 16), hexdigit (n mod 16)]"
proof (cases "n < 16")
  case True
  then show ?thesis by (simp add: hexDigits.simps [of n] padStart2_def hexdigit_def)
next
  case False
  assume "n < 256"
  with False have "n div 16 < 16" by simp
  with False show ?thesis
    by (simp add: hexDigits.simps [of n] hexDigits.simps [of "n div 16"] padStart2_def)
qed

lemma unat_hexdigit: "d < 16 \<Longrightarrow> unat (hexdigit d) = (if d < 10 then 48 + d else 87 + d)"
  unfolding hexdigit_def
  by (simp add: unat_of_nat del: of_nat_add of_nat_numeral)

lemma hexval_hexdigit: "d < 16 \<Longrightarrow> hexval (hexdigit d) = Some d"
  unfolding hexval_def
  by (auto simp: word_le_nat_alt unat_hexdigit)

lemma hexdigit_not_space: "d < 16 \<Longrightarrow> \<not> isStrWhiteSpaceChar (hexdigit d)"
  unfolding isStrWhiteSpaceChar_def
  by (auto simp: word_le_nat_alt unat_hexdigit word_eq_iff_unsigned [where ?'a = nat] split: if_splits)

lemma hexdigit_not_sign: "d < 16 \<Longrightarrow> hexdigit d \<noteq> 0x2B \<and> hexdigit d \<noteq> 0x2D \<and> hexdigit d \<noteq> 0x78 \<and> hexdigit d \<noteq> 0x58"
  by (auto simp: unat_hexdigit word_eq_iff_unsigned [where ?'a = nat] split: if_splits)

lemma parseInt16_pair:
  assumes "a < 16" "b < 16"
  shows "parseInt16 [hexdigit a, hexdigit b] = Some (int (a * 16 + b))"
  using assms hexdigit_not_space [of a] hexdigit_not_sign [of a] hexdigit_not_sign [of b]
  by (simp add: parseInt16_def stripHexPrefix_def hexval_hexdigit Let_def)

lemma substrPairs_concat:
  "substrPairs (concat (map (\<lambda>b. [f b, g b]) bs)) = map (\<lambda>b. [f b, g b]) bs"
  by (induction bs) simp_all

lemma js_rem_nonneg: "0 \<le> a \<Longrightarrow> 0 \<le> js_rem a 256 \<and> js_rem a 256 < 256"
  by (simp add: js_rem_def)

lemma xor_byte_range:
  fixes x m :: int
  assumes "0 \<le> x" "x < 256" "0 \<le> m" "m < 256"
  shows "0 \<le> x XOR m \<and> x XOR m < 256"
proof -
  have "x XOR m < 2 ^ 8" using assms by (intro XOR_upper) simp_all
  then show ?thesis using assms by simp
qed

lemma byte_hex_parse:
  assumes "0 \<le> b" "b < 256"
  shows "parseInt16 (padStart2 (toString16 b)) = Some b"
    and "\<exists>h1 h2. padStart2 (toString16 b) = [h1, h2]"
proof -
  have n: "nat b < 256" using assms by simp
  have s: "padStart2 (toString16 b) = [hexdigit (nat b div 16), hexdigit (nat b mod 16)]"
    using assms hexDigits_byte [OF n] by (simp add: toString16_def)
  have "nat b div 16 < 16" using n by simp
  then have "parseInt16 (padStart2 (toString16 b)) = Some (int (nat b div 16 * 16 + nat b mod 16))"
    unfolding s by (intro parseInt16_pair) simp_all
  then show "parseInt16 (padStart2 (toString16 b)) = Some b" using assms by simp
  show "\<exists>h1 h2. padStart2 (toString16 b) = [h1, h2]" using s by blast
qed

lemma unxor_xor:
  assumes "0 \<le> key" "\<forall>c\<in>set pin. c < 256"
  shows "unxorLoop key i (map parseInt16 (substrPairs
           (concat (map (\<lambda>b. padStart2 (toString16 b)) (xorPinLoop key i pin))))) = pin"
  using assms(2)
proof (induction pin arbitrary: i)
  case Nil
  then show ?case by simp
next
  case (Cons c cs)
  define m where "m = js_rem (key + int i) 256"
  define b where "b = uint c XOR m"
  have m: "0 \<le> m \<and> m < 256" unfolding m_def using assms(1) by (intro js_rem_nonneg) simp
  have "c < 256" using Cons.prems by simp
  then have c: "0 \<le> uint c \<and> uint c < 256" by (simp add: word_less_def)
  have b: "0 \<le> b \<and> b < 256" unfolding b_def using c m by (intro xor_byte_range) simp_all
  obtain h1 h2 where h: "padStart2 (toString16 b) = [h1, h2]"
    using byte_hex_parse(2) [of b] b by blast
  have p: "parseInt16 [h1, h2] = Some b" using byte_hex_parse(1) [of b] b h by simp
  have bxm: "b XOR m = uint c" unfolding b_def by (simp add: xor.assoc)
  have IH: "unxorLoop key (i + 1) (map parseInt16 (substrPairs
           (concat (map (\<lambda>b. padStart2 (toString16 b)) (xorPinLoop key (i + 1) cs))))) = cs"
    using Cons.IH [of "i + 1"] Cons.prems by simp
  show ?case
    using h p bxm IH by (simp add: m_def [symmetric] b_def [symmetric])
qed

lemma list_all_digit_byte: "list_all (\<lambda>c. 0x30 \<le> c \<and> c \<le> 0x39) (pin :: jsstring) \<Longrightarrow> \<forall>c\<in>set pin. c < 256"
  by (auto simp: list_all_iff word_le_nat_alt word_less_nat_alt)

lemma session_roundtrip_bytes:
  assumes "length extId \<le> 32768" and "\<forall>c\<in>set pin. c < 256"
  shows "decryptSessionPin extId (encryptSessionPin extId pin) = pin"
  unfolding decryptSessionPin_def encryptSessionPin_def
  using unxor_xor [OF getSessionKey_nonneg [OF assms(1)] assms(2)] by simp

text \<open>
  Claim C8.  The session obfuscation is reversible: for every PIN of 4 to 6 decimal
  digits, \<open>decryptSessionPin (encryptSessionPin pin) = pin\<close>, both directions using the
  key computed by \<open>getSessionKey\<close> from the same extension id.  The extension id is the
  platform's (32 characters in Chrome); the key is non-negative for every id of at most
  32768 code units.
\<close>

theorem decryptSessionPin_encryptSessionPin:
  assumes "length extId \<le> 32768"
    and "4 \<le> length pin" and "length pin \<le> 6"
    and "list_all (\<lambda>c. 0x30 \<le> c \<and> c \<le> 0x39) pin"
  shows "decryptSessionPin extId (encryptSessionPin extId pin) = pin"
  using session_roundtrip_bytes [OF assms(1) list_all_digit_byte [OF assms(4)]] .

theorem decryptSessionPin_encryptSessionPin_witness:
  "length fixtureExtId \<le> 32768 \<and> 4 \<le> length fixturePin \<and> length fixturePin \<le> 6
   \<and> list_all (\<lambda>c. 0x30 \<le> c \<and> c \<le> 0x39) fixturePin
   \<and> encryptSessionPin fixtureExtId fixturePin = [0x66, 0x31, 0x66, 0x33, 0x66, 0x31, 0x66, 0x37]
   \<and> decryptSessionPin fixtureExtId (encryptSessionPin fixtureExtId fixturePin) = fixturePin"
proof -
  have h1: "length fixtureExtId \<le> 32768" by (simp add: fixtureExtId_def)
  have h2: "4 \<le> length fixturePin" "length fixturePin \<le> 6" by (simp_all add: fixturePin_def)
  have h3: "list_all (\<lambda>c. 0x30 \<le> c \<and> c \<le> 0x39) fixturePin" by (simp add: fixturePin_def)
  have e: "encryptSessionPin fixtureExtId fixturePin = [0x66, 0x31, 0x66, 0x33, 0x66, 0x31, 0x66, 0x37]"
    by code_simp
  show ?thesis
    using h1 h2 h3 e decryptSessionPin_encryptSessionPin [OF h1 h2 h3] by simp
qed

section \<open>Session expiry\<close>

text \<open>
  Claim C5, as stated, fails at the boundary: \<open>getSessionPin\<close> tests \<open>now > expiry\<close>, so
  at \<open>now = expiry\<close> it still returns the PIN and keeps the session.  Here a session is
  created at time 0 (expiry 1800000) and read at time 1800000.
\<close>

theorem getSessionPin_at_expiry_counterexample:
  "rf_pin_session (createSession fixtureExtId fixturePin 0 fixtureStorage)
     = Some \<lparr>expiry = 1800000, ep = [0x66, 0x31, 0x66, 0x33, 0x66, 0x31, 0x66, 0x37]\<rparr>
   \<and> getSessionPin fixtureExtId False 1800000 (createSession fixtureExtId fixturePin 0 fixtureStorage)
     = (Some fixturePin, createSession fixtureExtId fixturePin 0 fixtureStorage)"
  by code_simp

text \<open>
  Claim C5, amended.  For every persisted session \<open>{expiry, ep}\<close> whose read succeeds:
  while \<open>now \<le> expiry\<close>, \<open>getSessionPin\<close> leaves the storage as it is and returns the
  de-obfuscated PIN (\<open>null\<close> when the stored \<open>ep\<close> is empty); once \<open>now > expiry\<close> it
  removes the session and returns \<open>null\<close>.
\<close>

theorem getSessionPin_boundary:
  assumes "rf_pin_session st = Some s" and "\<not> lastError"
  shows "(now \<le> expiry s \<longrightarrow>
            getSessionPin extId lastError now st
              = (if truthy (ep s) then Some (decryptSessionPin extId (ep s)) else None, st))
       \<and> (expiry s < now \<longrightarrow>
            getSessionPin extId lastError now st = (None, st\<lparr>rf_pin_session := None\<rparr>))"
  using assms by (simp add: getSessionPin_def)

theorem getSessionPin_boundary_witness:
  "getSessionPin fixtureExtId False 1800000
       (fixtureStorage\<lparr>rf_pin_session := Some \<lparr>expiry = 1800000, ep = [0x66, 0x31]\<rparr>\<rparr>)
     = (Some (decryptSessionPin fixtureExtId [0x66, 0x31]),
        fixtureStorage\<lparr>rf_pin_session := Some \<lparr>expiry = 1800000, ep = [0x66, 0x31]\<rparr>\<rparr>)
   \<and> getSessionPin fixtureExtId False 1800001
       (fixtureStorage\<lparr>rf_pin_session := Some \<lparr>expiry = 1800000, ep = [0x66, 0x31]\<rparr>\<rparr>)
     = (None, fixtureStorage)"
  using getSessionPin_boundary
    [of "fixtureStorage\<lparr>rf_pin_session := Some \<lparr>expiry = 1800000, ep = [0x66, 0x31]\<rparr>\<rparr>"
        "\<lparr>expiry = 1800000, ep = [0x66, 0x31]\<rparr>" False 1800000 fixtureExtId]
    getSessionPin_boundary
    [of "fixtureStorage\<lparr>rf_pin_session := Some \<lparr>expiry = 1800000, ep = [0x66, 0x31]\<rparr>\<rparr>"
        "\<lparr>expiry = 1800000, ep = [0x66, 0x31]\<rparr>" False 1800001 fixtureExtId]
  by (simp add: truthy_def fixtureStorage_def)

section \<open>Extending the session\<close>

lemma encryptSessionPin_truthy: "pin \<noteq> [] \<Longrightarrow> \<forall>c\<in>set pin. c < 256 \<Longrightarrow> length extId \<le> 32768 \<Longrightarrow> truthy (encryptSessionPin extId pin)"
proof -
  assume p: "pin \<noteq> []" and b: "\<forall>c\<in>set pin. c < 256" and l: "length extId \<le> 32768"
  have "decryptSessionPin extId (encryptSessionPin extId pin) = pin"
    using session_roundtrip_bytes [OF l b] .
  moreover have "decryptSessionPin extId [] = []" by (simp add: decryptSessionPin_def)
  ultimately have "encryptSessionPin extId pin \<noteq> []" using p by auto
  then show ?thesis by (simp add: truthy_def)
qed

text \<open>
  Claim C9, as stated, fails in two places.  A session created at time 0 and extended
  in the same millisecond is stored again with the same expiry (1800000), not a strictly
  later one.  And a session that has expired is not left unchanged: \<open>extendSession\<close>
  reads it through \<open>getSessionPin\<close>, which removes it from the storage.
\<close>

theorem extendSession_counterexample:
  "extendSession fixtureExtId False 0 0 (createSession fixtureExtId fixturePin 0 fixtureStorage)
     = createSession fixtureExtId fixturePin 0 fixtureStorage
   \<and> rf_pin_session (createSession fixtureExtId fixturePin 0 fixtureStorage)
     = Some \<lparr>expiry = 1800000, ep = [0x66, 0x31, 0x66, 0x33, 0x66, 0x31, 0x66, 0x37]\<rparr>
   \<and> rf_pin_session (extendSession fixtureExtId False 1800001 1800001
         (createSession fixtureExtId fixturePin 0 fixtureStorage)) = None"
  by code_simp

text \<open>
  Claim C9, amended.  If the read of the storage fails or no session is stored,
  \<open>extendSession\<close> leaves the storage unchanged.  If the stored session has expired
  (\<open>now > expiry\<close>), it is removed.  In both cases no session is created.  If the
  session is valid (\<open>now \<le> expiry\<close>) and its \<open>ep\<close> is what \<open>encryptSessionPin\<close> writes
  for a non-empty PIN of code units below 256, the session is stored again with
  \<open>expiry = now' + 1800000\<close>, \<open>now'\<close> being the time of the write, and the same \<open>ep\<close>;
  the new expiry is strictly later than the old one exactly when the old one is below
  \<open>now' + 1800000\<close>.
\<close>

theorem extendSession_cases:
  "(lastError \<or> rf_pin_session st = None \<longrightarrow> extendSession extId lastError now now' st = st)
   \<and> (\<forall>s. \<not> lastError \<and> rf_pin_session st = Some s \<and> expiry s < now \<longrightarrow>
          extendSession extId lastError now now' st = st\<lparr>rf_pin_session := None\<rparr>)
   \<and> (\<forall>s pin. \<not> lastError \<and> rf_pin_session st = Some s \<and> now \<le> expiry s
          \<and> ep s = encryptSessionPin extId pin \<and> pin \<noteq> [] \<and> list_all (\<lambda>c. c < 256) pin
          \<and> length extId \<le> 32768 \<longrightarrow>
          extendSession extId lastError now now' st
            = st\<lparr>rf_pin_session := Some \<lparr>expiry = now' + 1800000, ep = ep s\<rparr>\<rparr>)"
proof (intro conjI allI impI)
  assume "lastError \<or> rf_pin_session st = None"
  then show "extendSession extId lastError now now' st = st"
    by (auto simp: extendSession_def getSessionPin_def)
next
  fix s
  assume "\<not> lastError \<and> rf_pin_session st = Some s \<and> expiry s < now"
  then show "extendSession extId lastError now now' st = st\<lparr>rf_pin_session := None\<rparr>"
    by (simp add: extendSession_def getSessionPin_def)
next
  fix s pin
  assume a: "\<not> lastError \<and> rf_pin_session st = Some s \<and> now \<le> expiry s
          \<and> ep s = encryptSessionPin extId pin \<and> pin \<noteq> [] \<and> list_all (\<lambda>c. c < 256) pin
          \<and> length extId \<le> 32768"
  then have b: "\<forall>c\<in>set pin. c < 256" by (simp add: list_all_iff)
  have rt: "decryptSessionPin extId (ep s) = pin"
    using a session_roundtrip_bytes [OF _ b, of extId] by simp
  have tr: "truthy (ep s)" using a b encryptSessionPin_truthy [of pin extId] by simp
  have tp: "truthy pin" using a by (simp add: truthy_def)
  show "extendSession extId lastError now now' st
            = st\<lparr>rf_pin_session := Some \<lparr>expiry = now' + 1800000, ep = ep s\<rparr>\<rparr>"
    using a rt tr tp
    by (simp add: extendSession_def getSessionPin_def createSession_def SESSION_DURATION_MINUTES_def)
qed

theorem extendSession_cases_witness:
  "extendSession fixtureExtId False 5 7 fixtureStorage = fixtureStorage
   \<and> extendSession fixtureExtId False 1800001 1800002
        (createSession fixtureExtId fixturePin 0 fixtureStorage)
       = (createSession fixtureExtId fixturePin 0 fixtureStorage)\<lparr>rf_pin_session := None\<rparr>
   \<and> extendSession fixtureExtId False 60000 60001
        (createSession fixtureExtId fixturePin 0 fixtureStorage)
       = (createSession fixtureExtId fixturePin 0 fixtureStorage)
           \<lparr>rf_pin_session := Some \<lparr>expiry = 1860001, ep = encryptSessionPin fixtureExtId fixturePin\<rparr>\<rparr>"
proof -
  let ?st = "createSession fixtureExtId fixturePin 0 fixtureStorage"
  let ?s = "\<lparr>expiry = 1800000, ep = encryptSessionPin fixtureExtId fixturePin\<rparr>"
  have s: "rf_pin_session ?st = Some ?s"
    by (simp add: createSession_def SESSION_DURATION_MINUTES_def)
  have n: "rf_pin_session fixtureStorage = None" by (simp add: fixtureStorage_def)
  have l: "length fixtureExtId \<le> 32768" by (simp add: fixtureExtId_def)
  have p: "fixturePin \<noteq> [] \<and> list_all (\<lambda>c. c < 256) fixturePin" by (simp add: fixturePin_def)
  have c1: "extendSession fixtureExtId False 5 7 fixtureStorage = fixtureStorage"
    using extendSession_cases [of False fixtureStorage fixtureExtId 5 7] n by simp
  have c2: "extendSession fixtureExtId False 1800001 1800002 ?st = ?st\<lparr>rf_pin_session := None\<rparr>"
    using extendSession_cases [of False ?st fixtureExtId 1800001 1800002] s by simp
  have c3: "extendSession fixtureExtId False 60000 60001 ?st
       = ?st\<lparr>rf_pin_session := Some \<lparr>expiry = 1860001, ep = encryptSessionPin fixtureExtId fixturePin\<rparr>\<rparr>"
    using extendSession_cases [of False ?st fixtureExtId 60000 60001] s l p by force
  show ?thesis using c1 c2 c3 by simp
qed

section \<open>PIN enrolment\<close>

lemma handleSubmit_reject:
  "\<not> pinPolicy pin \<Longrightarrow>
     handleSubmit pin confirmPin = Inl PinMustBe4to6Digits
     \<or> handleSubmit pin confirmPin = Inl PinMustContainOnlyNumbers"
  by (simp add: handleSubmit_def pinPolicy_def isDigits_def)

lemma handleSubmit_accept:
  "handleSubmit pin confirmPin = Inr p \<Longrightarrow> pinPolicy pin \<and> confirmPin = pin \<and> p = pin"
  by (simp add: handleSubmit_def pinPolicy_def isDigits_def split: if_splits)

lemma handleSubmit_policy:
  "pinPolicy pin \<Longrightarrow> handleSubmit pin pin = Inr pin"
  by (auto simp: handleSubmit_def pinPolicy_def isDigits_def)

lemma submitPinSetup_Inl:
  "handleSubmit pin confirmPin = Inl err \<Longrightarrow>
     submitPinSetup W extId now pin confirmPin st = (Inl err, st)"
  by (simp add: submitPinSetup_def)

text \<open>
  Claim C7.  Enrolment through the set-up form persists a digest only when the PIN
  matches the policy of 4 to 6 numeric digits; for a PIN that does not match it, the
  form reports a format error (\<open>PIN must be 4-6 digits\<close> or \<open>PIN must contain only
  numbers\<close>) and the storage is unchanged, so no digest is persisted.  A PIN that matches
  the policy and its confirmation is persisted as \<open>hashPin pin\<close>.
\<close>

theorem submitPinSetup_policy:
  "(\<not> pinPolicy pin \<longrightarrow>
      (fst (submitPinSetup W extId now pin confirmPin st) = Inl PinMustBe4to6Digits
       \<or> fst (submitPinSetup W extId now pin confirmPin st) = Inl PinMustContainOnlyNumbers)
      \<and> snd (submitPinSetup W extId now pin confirmPin st) = st)
   \<and> (snd (submitPinSetup W extId now pin confirmPin st) \<noteq> st \<longrightarrow> pinPolicy pin)
   \<and> (pinPolicy pin \<and> confirmPin = pin \<longrightarrow>
      fst (submitPinSetup W extId now pin confirmPin st) = Inr ()
      \<and> rf_pin_hash (snd (submitPinSetup W extId now pin confirmPin st)) = Some (hashPin W pin))"
proof (intro conjI impI)
  assume "\<not> pinPolicy pin"
  then have r: "handleSubmit pin confirmPin = Inl PinMustBe4to6Digits
     \<or> handleSubmit pin confirmPin = Inl PinMustContainOnlyNumbers"
    by (rule handleSubmit_reject)
  then show "fst (submitPinSetup W extId now pin confirmPin st) = Inl PinMustBe4to6Digits
       \<or> fst (submitPinSetup W extId now pin confirmPin st) = Inl PinMustContainOnlyNumbers"
    using submitPinSetup_Inl [of pin confirmPin _ W extId now st] by auto
  show "snd (submitPinSetup W extId now pin confirmPin st) = st"
    using r submitPinSetup_Inl [of pin confirmPin _ W extId now st] by auto
next
  assume c: "snd (submitPinSetup W extId now pin confirmPin st) \<noteq> st"
  show "pinPolicy pin"
  proof (cases "handleSubmit pin confirmPin")
    case (Inl err)
    then show ?thesis using c submitPinSetup_Inl [of pin confirmPin err W extId now st] by simp
  next
    case (Inr p)
    then show ?thesis using handleSubmit_accept by blast
  qed
next
  assume "pinPolicy pin \<and> confirmPin = pin"
  then have h: "handleSubmit pin confirmPin = Inr pin" using handleSubmit_policy by simp
  show "fst (submitPinSetup W extId now pin confirmPin st) = Inr ()"
    using h by (simp add: submitPinSetup_def)
  show "rf_pin_hash (snd (submitPinSetup W extId now pin confirmPin st)) = Some (hashPin W pin)"
    using h by (simp add: submitPinSetup_def handlePinSetup_def savePin_def createSession_def)
qed

theorem submitPinSetup_policy_witness:
  "submitPinSetup fixtureCrypto fixtureExtId 0 [0x31, 0x32, 0x33] [0x31, 0x32, 0x33] fixtureStorage
     = (Inl PinMustBe4to6Digits, fixtureStorage)
   \<and> submitPinSetup fixtureCrypto fixtureExtId 0 [0x31, 0x32, 0x33, 0x61] [0x31, 0x32, 0x33, 0x61] fixtureStorage
     = (Inl PinMustContainOnlyNumbers, fixtureStorage)
   \<and> fst (submitPinSetup fixtureCrypto fixtureExtId 0 fixturePin fixturePin fixtureStorage) = Inr ()
   \<and> rf_pin_hash (snd (submitPinSetup fixtureCrypto fixtureExtId 0 fixturePin fixturePin fixtureStorage))
     = Some (hashPin fixtureCrypto fixturePin)
   \<and> hashPin fixtureCrypto fixturePin = [0x33, 0x31, 0x33, 0x32, 0x33, 0x33, 0x33, 0x34]"
proof -
  have p: "pinPolicy fixturePin" by (simp add: pinPolicy_def fixturePin_def)
  have e: "TextEncoder_encode fixturePin = [0x31, 0x32, 0x33, 0x34]"
    by (simp add: TextEncoder_encode_def fixturePin_def isHighSurrogate_def isLowSurrogate_def
        utf8Bytes_def)
  have h: "hashPin fixtureCrypto fixturePin = [0x33, 0x31, 0x33, 0x32, 0x33, 0x33, 0x33, 0x34]"
    unfolding hashPin_def e by code_simp
  have a: "submitPinSetup fixtureCrypto fixtureExtId 0 [0x31, 0x32, 0x33] [0x31, 0x32, 0x33] fixtureStorage
     = (Inl PinMustBe4to6Digits, fixtureStorage)"
    by (simp add: submitPinSetup_def handleSubmit_def)
  have b: "submitPinSetup fixtureCrypto fixtureExtId 0 [0x31, 0x32, 0x33, 0x61] [0x31, 0x32, 0x33, 0x61] fixtureStorage
     = (Inl PinMustContainOnlyNumbers, fixtureStorage)"
    by (simp add: submitPinSetup_def handleSubmit_def isDigits_def)
  have c: "fst (submitPinSetup fixtureCrypto fixtureExtId 0 fixturePin fixturePin fixtureStorage) = Inr ()
      \<and> rf_pin_hash (snd (submitPinSetup fixtureCrypto fixtureExtId 0 fixturePin fixturePin fixtureStorage)) = Some (hashPin fixtureCrypto fixturePin)"
    using p submitPinSetup_policy [of fixturePin fixtureCrypto fixtureExtId 0 fixturePin fixtureStorage]
    by blast
  show ?thesis
    using h a b c by simp
qed

section \<open>Hexadecimal strings\<close>

lemma byte_hex: "padStart2 (toString16 (uint (b :: 8 word))) = [hexdigit (unat b div 16), hexdigit (unat b mod 16)]"
proof -
  have n: "unat b < 256" using unsigned_less [of b] by simp
  have "toString16 (uint b) = hexDigits (unat b)" by (simp add: toString16_def)
  then show ?thesis using hexDigits_byte [OF n] by simp
qed

lemma arrayBufferToHex_pairs:
  "arrayBufferToHex buffer = concat (map (\<lambda>b. [hexdigit (unat b div 16), hexdigit (unat b mod 16)]) buffer)"
  by (simp add: arrayBufferToHex_def byte_hex)

lemma length_arrayBufferToHex: "length (arrayBufferToHex buffer) = 2 * length buffer"
  by (induction buffer) (simp_all add: arrayBufferToHex_pairs)

lemma parse_byte_hex:
  "parseInt16 [hexdigit (unat (b :: 8 word) div 16), hexdigit (unat b mod 16)] = Some (uint b)"
proof -
  have n: "unat b < 256" using unsigned_less [of b] by simp
  then have "unat b div 16 < 16" by simp
  then have "parseInt16 [hexdigit (unat b div 16), hexdigit (unat b mod 16)]
      = Some (int (unat b div 16 * 16 + unat b mod 16))"
    by (intro parseInt16_pair) simp_all
  then show ?thesis by simp
qed

lemma hexToUint8Array_arrayBufferToHex: "hexToUint8Array (arrayBufferToHex buffer) = buffer"
proof -
  have "map (\<lambda>p. case parseInt16 p of None \<Rightarrow> 0 | Some v \<Rightarrow> word_of_int v)
          (map (\<lambda>b. [hexdigit (unat b div 16), hexdigit (unat b mod 16)]) buffer) = buffer"
    by (induction buffer) (simp_all add: parse_byte_hex)
  then show ?thesis
    unfolding hexToUint8Array_def length_arrayBufferToHex
    by (simp add: arrayBufferToHex_pairs substrPairs_concat)
qed

lemma arrayBufferToHex_truthy: "buffer \<noteq> [] \<Longrightarrow> truthy (arrayBufferToHex buffer)"
  using length_arrayBufferToHex [of buffer] by (auto simp: truthy_def)

lemma arrayBufferToHex_inj: "arrayBufferToHex a = arrayBufferToHex b \<Longrightarrow> a = b"
  using hexToUint8Array_arrayBufferToHex by metis

section \<open>Base64\<close>

lemma btoa_sextets: "btoa bs = map b64char (sextets bs) @ replicate (padding bs) 0x3D"
  by (induction bs rule: btoa.induct) (simp_all add: numeral_2_eq_2)

lemma mod4_shifted: "(a::nat) mod 4 * 16 \<le> 48"
proof -
  have "a mod 4 < 4" by simp
  then have "a mod 4 \<le> 3" by linarith
  then show ?thesis by simp
qed

lemma mod16_shifted: "(b::nat) mod 16 * 4 \<le> 60"
proof -
  have "b mod 16 < 16" by simp
  then have "b mod 16 \<le> 15" by linarith
  then show ?thesis by simp
qed

lemma byte_div4: "(a::nat) < 256 \<Longrightarrow> a div 4 < 64" by simp

lemma byte_div16: "(b::nat) < 256 \<Longrightarrow> b div 16 < 16" by simp

lemma byte_div64: "(c::nat) < 256 \<Longrightarrow> c div 64 < 4" by simp

lemma second_sextet: "(b::nat) < 256 \<Longrightarrow> a mod 4 * 16 + b div 16 < 64"
  using mod4_shifted [of a] byte_div16 [of b] by linarith

lemma third_sextet: "(c::nat) < 256 \<Longrightarrow> b mod 16 * 4 + c div 64 < 64"
  using mod16_shifted [of b] byte_div64 [of c] by linarith

lemma second_sextet_short: "(a::nat) mod 4 * 16 < 64" using mod4_shifted [of a] by linarith

lemma third_sextet_short: "(b::nat) mod 16 * 4 < 64" using mod16_shifted [of b] by linarith

lemma join_first: "(a::nat) div 4 * 4 + (a mod 4 * 16 + x) div 16 = a + x div 16"
proof -
  have 1: "(a mod 4 * 16 + x) div 16 = a mod 4 + x div 16" by simp
  have 2: "a div 4 * 4 + a mod 4 = a" by (rule div_mult_mod_eq)
  show ?thesis unfolding 1 using 2 by linarith
qed

lemma join_second: "(b::nat) < 256 \<Longrightarrow> (y * 16 + b div 16) mod 16 * 16 + (b mod 16 * 4 + z) div 4 = b + z div 4"
proof -
  assume "b < 256"
  then have "b div 16 < 16" by simp
  then have 1: "(y * 16 + b div 16) mod 16 = b div 16" by simp
  have 2: "(b mod 16 * 4 + z) div 4 = b mod 16 + z div 4" by simp
  have 3: "b div 16 * 16 + b mod 16 = b" by (rule div_mult_mod_eq)
  show ?thesis unfolding 1 2 using 3 by linarith
qed

lemma join_third: "(c::nat) < 256 \<Longrightarrow> (y * 4 + c div 64) mod 4 * 64 + c mod 64 = c"
proof -
  assume "c < 256"
  then have "c div 64 < 4" by simp
  then have 1: "(y * 4 + c div 64) mod 4 = c div 64" by simp
  have 3: "c div 64 * 64 + c mod 64 = c" by (rule div_mult_mod_eq)
  show ?thesis unfolding 1 using 3 by linarith
qed

lemma first_byte: "(b::nat) < 256 \<Longrightarrow> a div 4 * 4 + (a mod 4 * 16 + b div 16) div 16 = a"
  using join_first [of a "b div 16"] byte_div16 [of b] by simp

lemma first_byte_short: "(a::nat) div 4 * 4 + a mod 4 * 16 div 16 = a"
  using join_first [of a 0] by simp

lemma second_byte: "(b::nat) < 256 \<Longrightarrow> c < 256 \<Longrightarrow>
    (a mod 4 * 16 + b div 16) mod 16 * 16 + (b mod 16 * 4 + c div 64) div 4 = b"
  using join_second [of b "a mod 4" "c div 64"] byte_div64 [of c] by simp

lemma second_byte_short: "(b::nat) < 256 \<Longrightarrow> (a mod 4 * 16 + b div 16) mod 16 * 16 + b mod 16 * 4 div 4 = b"
  using join_second [of b "a mod 4" 0] by simp

lemma third_byte: "(c::nat) < 256 \<Longrightarrow> (b mod 16 * 4 + c div 64) mod 4 * 64 + c mod 64 = c"
  using join_third [of c "b mod 16"] by simp

lemma sextets_bound: "\<forall>b\<in>set bs. b < 256 \<Longrightarrow> \<forall>s\<in>set (sextets bs). s < 64"
proof (induction bs rule: sextets.induct)
  case 1
  then show ?case by simp
next
  case (2 a)
  then show ?case using byte_div4 [of a] second_sextet_short [of a] by simp
next
  case (3 a b)
  then show ?case using byte_div4 [of a] second_sextet [of b a] third_sextet_short [of b] by simp
next
  case (4 a b c rest)
  then have r: "\<forall>s\<in>set (sextets rest). s < 64" by simp
  have "c mod 64 < 64" by simp
  then show ?case using 4(2) r byte_div4 [of a] second_sextet [of b a] third_sextet [of c b] by simp
qed

lemma sextetsToBytes_sextets: "\<forall>b\<in>set bs. b < 256 \<Longrightarrow> sextetsToBytes (sextets bs) = bs"
proof (induction bs rule: sextets.induct)
  case 1
  then show ?case by simp
next
  case (2 a)
  show ?case by (simp only: sextets.simps sextetsToBytes.simps first_byte_short)
next
  case (3 a b)
  then have "b < 256" by simp
  then show ?case by (simp only: sextets.simps sextetsToBytes.simps first_byte second_byte_short)
next
  case (4 a b c rest)
  then have b: "b < 256" "c < 256" and r: "sextetsToBytes (sextets rest) = rest" by simp_all
  show ?case using b r by (simp only: sextets.simps sextetsToBytes.simps first_byte second_byte third_byte)
qed

lemma unat_b64char:
  "i < 64 \<Longrightarrow> unat (b64char i)
     = (if i < 26 then 65 + i else if i < 52 then 71 + i else if i < 62 then i - 4
        else if i = 62 then 43 else 47)"
  unfolding b64char_def
  by (simp add: unat_of_nat del: of_nat_add of_nat_numeral of_nat_diff)

lemma b64index_b64char: "i < 64 \<Longrightarrow> b64index (b64char i) = Some i"
  unfolding b64index_def
  by (auto simp: word_le_nat_alt unat_b64char word_eq_iff_unsigned [where ?'a = nat]
      split: if_splits)

lemma b64char_not_space: "i < 64 \<Longrightarrow> \<not> isAsciiWhitespace (b64char i)"
  unfolding isAsciiWhitespace_def
  by (auto simp: unat_b64char word_eq_iff_unsigned [where ?'a = nat] split: if_splits)

lemma b64char_not_pad: "i < 64 \<Longrightarrow> b64char i \<noteq> 0x3D"
  by (auto simp: unat_b64char word_eq_iff_unsigned [where ?'a = nat] split: if_splits)

lemma padding_cases: "padding bs = 0 \<or> padding bs = 1 \<or> padding bs = 2"
  by (induction bs rule: padding.induct) simp_all

lemma length_sextets_padding: "(length (sextets bs) + padding bs) mod 4 = 0"
  by (induction bs rule: sextets.induct) simp_all

lemma stripPadding_padded:
  assumes "\<forall>c\<in>set xs. c \<noteq> 0x3D" and "p = 0 \<or> p = 1 \<or> p = 2" and "(length xs + p) mod 4 = 0"
  shows "stripPadding (xs @ replicate p 0x3D) = xs"
proof -
  have l: "xs \<noteq> [] \<Longrightarrow> last xs \<noteq> 0x3D" using assms(1) last_in_set by blast
  from assms(2) consider "p = 0" | "p = 1" | "p = 2" by blast
  then show ?thesis
  proof cases
    case 1
    then show ?thesis using l by (auto simp: stripPadding_def)
  next
    case 2
    then show ?thesis using l assms(3) by (auto simp: stripPadding_def)
  next
    case 3
    then have "replicate p (0x3D :: 16 word) = [0x3D, 0x3D]" by (simp add: numeral_2_eq_2)
    then show ?thesis using assms(3) 3 by (simp add: stripPadding_def butlast_append)
  qed
qed

lemma map_filter_b64index:
  "\<forall>s\<in>set sx. s < 64 \<Longrightarrow> List.map_filter b64index (map b64char sx) = sx"
  by (induction sx) (simp_all add: b64index_b64char)

lemma atob_btoa:
  assumes "\<forall>b\<in>set bs. b < 256"
  shows "atob (btoa bs) = Inr bs"
proof -
  let ?xs = "map b64char (sextets bs)"
  have sx: "\<forall>s\<in>set (sextets bs). s < 64" using assms by (rule sextets_bound)
  have nopad: "\<forall>c\<in>set ?xs. c \<noteq> 0x3D" using sx b64char_not_pad by auto
  have nospace: "\<forall>c\<in>set (btoa bs). \<not> isAsciiWhitespace c"
    using sx b64char_not_space by (auto simp: btoa_sextets isAsciiWhitespace_def)
  then have f: "filter (\<lambda>c. \<not> isAsciiWhitespace c) (btoa bs) = btoa bs" by simp
  have st: "stripPadding (btoa bs) = ?xs"
    unfolding btoa_sextets
    using nopad padding_cases [of bs] length_sextets_padding [of bs]
    by (intro stripPadding_padded) simp_all
  have len: "length ?xs mod 4 \<noteq> 1"
  proof -
    have "(length (sextets bs) + padding bs) mod 4 = 0" by (rule length_sextets_padding)
    moreover have "padding bs = 0 \<or> padding bs = 1 \<or> padding bs = 2" by (rule padding_cases)
    ultimately have "length (sextets bs) mod 4 \<noteq> 1" by presburger
    then show ?thesis by simp
  qed
  have ok: "\<not> list_ex (\<lambda>c. b64index c = None) ?xs"
    using sx by (auto simp: list_ex_iff b64index_b64char)
  have idx: "List.map_filter b64index ?xs = sextets bs"
    using sx by (rule map_filter_b64index)
  show ?thesis
    unfolding atob_def f st Let_def using len ok idx sextetsToBytes_sextets [OF assms] by simp
qed

lemma base64ToArrayBuffer_arrayBufferToBase64:
  "base64ToArrayBuffer (arrayBufferToBase64 buffer) = Inr buffer"
proof -
  have "\<forall>b\<in>set (map unat buffer). b < 256"
  proof
    fix b assume "b \<in> set (map unat buffer)"
    then obtain w :: "8 word" where "b = unat w" by auto
    then show "b < 256" using unsigned_less [of w] by simp
  qed
  then have "atob (btoa (map unat buffer)) = Inr (map unat buffer)" by (rule atob_btoa)
  then show ?thesis
    by (simp add: base64ToArrayBuffer_def arrayBufferToBase64_def map_idI)
qed

section \<open>UTF-8\<close>

lemma decode_one_byte: "b \<le> 0x7F \<Longrightarrow> utf8Decode 0 x lo hi (b # rest) = b # utf8Decode 0 0 0x80 0xBF rest"
  by (simp add: utf8Decode.simps(2))

lemma decode_two_bytes:
  assumes "0xC2 \<le> b1" "b1 \<le> 0xDF" "0x80 \<le> b2" "b2 \<le> 0xBF"
  shows "utf8Decode 0 x lo hi (b1 # b2 # rest)
           = (b1 mod 32 * 64 + b2 mod 64) # utf8Decode 0 0 0x80 0xBF rest"
  using assms by (simp add: utf8Decode.simps(2))

lemma decode_three_bytes:
  assumes "0xE0 \<le> b1" "b1 \<le> 0xEF"
    and "(if b1 = 0xE0 then 0xA0 else 0x80) \<le> b2" "b2 \<le> (if b1 = 0xED then 0x9F else 0xBF)"
    and "0x80 \<le> b3" "b3 \<le> 0xBF"
  shows "utf8Decode 0 x lo hi (b1 # b2 # b3 # rest)
           = ((b1 mod 16 * 64 + b2 mod 64) * 64 + b3 mod 64) # utf8Decode 0 0 0x80 0xBF rest"
proof -
  have 1: "utf8Decode 0 x lo hi (b1 # b2 # b3 # rest)
      = utf8Decode 2 (b1 mod 16) (if b1 = 0xE0 then 0xA0 else 0x80)
             (if b1 = 0xED then 0x9F else 0xBF) (b2 # b3 # rest)"
    using assms(1,2) by (subst utf8Decode.simps(2)) simp
  have 2: "utf8Decode 2 (b1 mod 16) (if b1 = 0xE0 then 0xA0 else 0x80)
             (if b1 = 0xED then 0x9F else 0xBF) (b2 # b3 # rest)
      = utf8Decode 1 (b1 mod 16 * 64 + b2 mod 64) 0x80 0xBF (b3 # rest)"
    using assms(3,4) by (subst utf8Decode.simps(2)) simp
  have 3: "utf8Decode 1 (b1 mod 16 * 64 + b2 mod 64) 0x80 0xBF (b3 # rest)
      = ((b1 mod 16 * 64 + b2 mod 64) * 64 + b3 mod 64) # utf8Decode 0 0 0x80 0xBF rest"
    using assms(5,6) by (subst utf8Decode.simps(2)) simp
  show ?thesis unfolding 1 2 3 ..
qed

lemma decode_four_bytes:
  assumes "0xF0 \<le> b1" "b1 \<le> 0xF4"
    and "(if b1 = 0xF0 then 0x90 else 0x80) \<le> b2" "b2 \<le> (if b1 = 0xF4 then 0x8F else 0xBF)"
    and "0x80 \<le> b3" "b3 \<le> 0xBF" and "0x80 \<le> b4" "b4 \<le> 0xBF"
  shows "utf8Decode 0 x lo hi (b1 # b2 # b3 # b4 # rest)
           = (((b1 mod 8 * 64 + b2 mod 64) * 64 + b3 mod 64) * 64 + b4 mod 64)
               # utf8Decode 0 0 0x80 0xBF rest"
proof -
  have 1: "utf8Decode 0 x lo hi (b1 # b2 # b3 # b4 # rest)
      = utf8Decode 3 (b1 mod 8) (if b1 = 0xF0 then 0x90 else 0x80)
             (if b1 = 0xF4 then 0x8F else 0xBF) (b2 # b3 # b4 # rest)"
    using assms(1,2) by (subst utf8Decode.simps(2)) simp
  have 2: "utf8Decode 3 (b1 mod 8) (if b1 = 0xF0 then 0x90 else 0x80)
             (if b1 = 0xF4 then 0x8F else 0xBF) (b2 # b3 # b4 # rest)
      = utf8Decode 2 (b1 mod 8 * 64 + b2 mod 64) 0x80 0xBF (b3 # b4 # rest)"
    using assms(3,4) by (subst utf8Decode.simps(2)) simp
  have 3: "utf8Decode 2 (b1 mod 8 * 64 + b2 mod 64) 0x80 0xBF (b3 # b4 # rest)
      = utf8Decode 1 ((b1 mod 8 * 64 + b2 mod 64) * 64 + b3 mod 64) 0x80 0xBF (b4 # rest)"
    using assms(5,6) by (subst utf8Decode.simps(2)) simp
  have 4: "utf8Decode 1 ((b1 mod 8 * 64 + b2 mod 64) * 64 + b3 mod 64) 0x80 0xBF (b4 # rest)
      = (((b1 mod 8 * 64 + b2 mod 64) * 64 + b3 mod 64) * 64 + b4 mod 64)
               # utf8Decode 0 0 0x80 0xBF rest"
    using assms(7,8) by (subst utf8Decode.simps(2)) simp
  show ?thesis unfolding 1 2 3 4 ..
qed

lemma mod_mult_add: "r < m \<Longrightarrow> (k * m + r) mod (m::nat) = r"
  by simp

lemma lead_byte_mod:
  fixes q :: nat
  shows "q < 32 \<Longrightarrow> (192 + q) mod 32 = q"
    and "q < 64 \<Longrightarrow> (128 + q) mod 64 = q"
    and "q < 16 \<Longrightarrow> (224 + q) mod 16 = q"
    and "q < 8 \<Longrightarrow> (240 + q) mod 8 = q"
  using mod_mult_add [of q 32 6] mod_mult_add [of q 64 2] mod_mult_add [of q 16 14]
    mod_mult_add [of q 8 30]
  by simp_all

lemma split64: "(cp::nat) div 64 * 64 + cp mod 64 = cp"
  by (rule div_mult_mod_eq)

lemma split4096: "(cp::nat) div 4096 * 64 + cp div 64 mod 64 = cp div 64"
proof -
  have "cp div 4096 = cp div 64 div 64" by (simp add: div_mult2_eq [symmetric])
  then show ?thesis by (simp add: div_mult_mod_eq)
qed

lemma split262144: "(cp::nat) div 262144 * 64 + cp div 4096 mod 64 = cp div 4096"
proof -
  have "cp div 262144 = cp div 4096 div 64" by (simp add: div_mult2_eq [symmetric])
  then show ?thesis by (simp add: div_mult_mod_eq)
qed

lemma utf8_two_bytes:
  assumes "0x80 \<le> cp" "cp < 0x800"
  shows "utf8Decode 0 x lo hi ([0xC0 + cp div 64, 0x80 + cp mod 64] @ rest)
           = cp # utf8Decode 0 0 0x80 0xBF rest"
proof -
  have q: "2 \<le> cp div 64" "cp div 64 < 32" using assms by simp_all
  have r: "cp mod 64 < 64" by simp
  have e: "utf8Decode 0 x lo hi ((0xC0 + cp div 64) # (0x80 + cp mod 64) # rest)
      = ((0xC0 + cp div 64) mod 32 * 64 + (0x80 + cp mod 64) mod 64)
          # utf8Decode 0 0 0x80 0xBF rest"
    using q r by (intro decode_two_bytes) simp_all
  have m1: "(0xC0 + cp div 64) mod 32 = cp div 64" using lead_byte_mod(1) [OF q(2)] by simp
  have m2: "(0x80 + cp mod 64) mod 64 = cp mod 64" using lead_byte_mod(2) [OF r] by simp
  have v: "(0xC0 + cp div 64) mod 32 * 64 + (0x80 + cp mod 64) mod 64 = cp"
    unfolding m1 m2 by (rule split64)
  show ?thesis unfolding append.simps e v ..
qed

lemma utf8_three_bytes:
  assumes "0x800 \<le> cp" "cp < 0x10000" "\<not> (0xD800 \<le> cp \<and> cp \<le> 0xDFFF)"
  shows "utf8Decode 0 x lo hi
           ([0xE0 + cp div 4096, 0x80 + cp div 64 mod 64, 0x80 + cp mod 64] @ rest)
           = cp # utf8Decode 0 0 0x80 0xBF rest"
proof -
  let ?b1 = "0xE0 + cp div 4096" and ?b2 = "0x80 + cp div 64 mod 64" and ?b3 = "0x80 + cp mod 64"
  have q1: "cp div 4096 < 16" using assms by simp
  have q2: "cp div 64 mod 64 < 64" by simp
  have r: "cp mod 64 < 64" by simp
  have lo: "(if ?b1 = 0xE0 then 0xA0 else 0x80) \<le> ?b2"
  proof (cases "cp div 4096 = 0")
    case True
    then have "cp < 4096" by (simp add: div_eq_0_iff)
    then have "cp div 64 < 64" by simp
    then have "cp div 64 mod 64 = cp div 64" by simp
    moreover have "32 \<le> cp div 64" using assms(1) by simp
    ultimately show ?thesis using True by simp
  next
    case False
    then show ?thesis by simp
  qed
  have hi: "?b2 \<le> (if ?b1 = 0xED then 0x9F else 0xBF)"
  proof (cases "cp div 4096 = 13")
    case True
    then have "cp div 64 div 64 = 13" by (simp add: div_mult2_eq [symmetric])
    moreover have "cp < 0xD800" using assms(2,3) True by (cases "0xD800 \<le> cp") auto
    then have "cp div 64 < 864" by simp
    ultimately have "cp div 64 mod 64 < 32"
      using div_mult_mod_eq [of "cp div 64" 64] by linarith
    then show ?thesis using True by simp
  next
    case False
    then show ?thesis using q2 by simp
  qed
  have e: "utf8Decode 0 x lo hi (?b1 # ?b2 # ?b3 # rest)
      = ((?b1 mod 16 * 64 + ?b2 mod 64) * 64 + ?b3 mod 64) # utf8Decode 0 0 0x80 0xBF rest"
    using q1 lo hi r by (intro decode_three_bytes) simp_all
  have m1: "?b1 mod 16 = cp div 4096" using lead_byte_mod(3) [OF q1] by simp
  have m2: "?b2 mod 64 = cp div 64 mod 64" using lead_byte_mod(2) [OF q2] by simp
  have m3: "?b3 mod 64 = cp mod 64" using lead_byte_mod(2) [OF r] by simp
  have v: "(?b1 mod 16 * 64 + ?b2 mod 64) * 64 + ?b3 mod 64 = cp"
    unfolding m1 m2 m3 split4096 by (rule split64)
  show ?thesis unfolding append.simps e v ..
qed

lemma utf8_four_bytes:
  assumes "0x10000 \<le> cp" "cp < 0x110000"
  shows "utf8Decode 0 x lo hi
           ([0xF0 + cp div 262144, 0x80 + cp div 4096 mod 64, 0x80 + cp div 64 mod 64,
             0x80 + cp mod 64] @ rest)
           = cp # utf8Decode 0 0 0x80 0xBF rest"
proof -
  let ?b1 = "0xF0 + cp div 262144" and ?b2 = "0x80 + cp div 4096 mod 64"
    and ?b3 = "0x80 + cp div 64 mod 64" and ?b4 = "0x80 + cp mod 64"
  have q0: "cp div 262144 < 5" using assms by simp
  have q1: "cp div 4096 mod 64 < 64" by simp
  have q2: "cp div 64 mod 64 < 64" by simp
  have r: "cp mod 64 < 64" by simp
  have lo: "(if ?b1 = 0xF0 then 0x90 else 0x80) \<le> ?b2"
  proof (cases "cp div 262144 = 0")
    case True
    then have "cp < 262144" by (simp add: div_eq_0_iff)
    then have "cp div 4096 < 64" by simp
    then have "cp div 4096 mod 64 = cp div 4096" by simp
    moreover have "16 \<le> cp div 4096" using assms(1) by simp
    ultimately show ?thesis using True by simp
  next
    case False
    then show ?thesis by simp
  qed
  have hi: "?b2 \<le> (if ?b1 = 0xF4 then 0x8F else 0xBF)"
  proof (cases "cp div 262144 = 4")
    case True
    then have "cp div 4096 div 64 = 4" by (simp add: div_mult2_eq [symmetric])
    moreover have "cp div 4096 < 272" using assms(2) by simp
    ultimately have "cp div 4096 mod 64 < 16"
      using div_mult_mod_eq [of "cp div 4096" 64] by linarith
    then show ?thesis using True by simp
  next
    case False
    then show ?thesis using q1 by simp
  qed
  have e: "utf8Decode 0 x lo hi (?b1 # ?b2 # ?b3 # ?b4 # rest)
      = (((?b1 mod 8 * 64 + ?b2 mod 64) * 64 + ?b3 mod 64) * 64 + ?b4 mod 64)
          # utf8Decode 0 0 0x80 0xBF rest"
    using q0 lo hi q2 r by (intro decode_four_bytes) simp_all
  have m1: "?b1 mod 8 = cp div 262144" using lead_byte_mod(4) [of "cp div 262144"] q0 by simp
  have m2: "?b2 mod 64 = cp div 4096 mod 64" using lead_byte_mod(2) [OF q1] by simp
  have m3: "?b3 mod 64 = cp div 64 mod 64" using lead_byte_mod(2) [OF q2] by simp
  have m4: "?b4 mod 64 = cp mod 64" using lead_byte_mod(2) [OF r] by simp
  have v: "((?b1 mod 8 * 64 + ?b2 mod 64) * 64 + ?b3 mod 64) * 64 + ?b4 mod 64 = cp"
    unfolding m1 m2 m3 m4 split262144 split4096 by (rule split64)
  show ?thesis unfolding append.simps e v ..
qed

lemma utf8Decode_utf8Bytes:
  assumes "isScalar cp"
  shows "utf8Decode 0 x lo hi (utf8Bytes cp @ rest) = cp # utf8Decode 0 0 0x80 0xBF rest"
proof -
  consider "cp < 0x80" | "0x80 \<le> cp" "cp < 0x800" | "0x800 \<le> cp" "cp < 0x10000"
    | "0x10000 \<le> cp" by linarith
  then show ?thesis
  proof cases
    case 1
    then show ?thesis using decode_one_byte [of cp x lo hi rest] by (simp add: utf8Bytes_def)
  next
    case 2
    then show ?thesis using utf8_two_bytes [of cp x lo hi rest] by (simp add: utf8Bytes_def)
  next
    case 3
    then show ?thesis using assms utf8_three_bytes [of cp x lo hi rest]
      by (simp add: utf8Bytes_def isScalar_def)
  next
    case 4
    then show ?thesis using assms utf8_four_bytes [of cp x lo hi rest]
      by (simp add: utf8Bytes_def isScalar_def)
  qed
qed

lemma utf8Bytes_byte: "cp < 0x110000 \<Longrightarrow> \<forall>b\<in>set (utf8Bytes cp). b < 256"
proof -
  assume a: "cp < 0x110000"
  have m: "cp mod 64 < 64" "cp div 64 mod 64 < 64" "cp div 4096 mod 64 < 64" by simp_all
  have d: "cp < 0x800 \<Longrightarrow> cp div 64 < 32" "cp < 0x10000 \<Longrightarrow> cp div 4096 < 16"
    "cp div 262144 < 5" using a by simp_all
  show ?thesis using m d by (auto simp: utf8Bytes_def)
qed

lemma pair_value:
  assumes "isHighSurrogate c" "isLowSurrogate d"
  shows "isScalar (0x10000 + (c - 0xD800) * 0x400 + (d - 0xDC00))"
    and "codeUnits (0x10000 + (c - 0xD800) * 0x400 + (d - 0xDC00)) = [c, d]"
proof -
  define h where "h = c - 0xD800"
  define l where "l = d - 0xDC00"
  have c: "c = 0xD800 + h" and h: "h < 1024" using assms(1) unfolding h_def isHighSurrogate_def by linarith+
  have d: "d = 0xDC00 + l" and l: "l < 1024" using assms(2) unfolding l_def isLowSurrogate_def by linarith+
  have hl: "h * 1024 + l < 1048576" using h l by linarith
  show "isScalar (0x10000 + (c - 0xD800) * 0x400 + (d - 0xDC00))"
    using hl by (simp add: isScalar_def h_def [symmetric] l_def [symmetric])
  have dv: "(h * 1024 + l) div 1024 = h" using l by simp
  have md: "(h * 1024 + l) mod 1024 = l" using l by simp
  have "codeUnits (0x10000 + h * 0x400 + l) = [0xD800 + h, 0xDC00 + l]"
    using dv md by (simp add: codeUnits_def)
  then show "codeUnits (0x10000 + (c - 0xD800) * 0x400 + (d - 0xDC00)) = [c, d]"
    unfolding h_def [symmetric] l_def [symmetric] c d by simp
qed

lemma FFFD_scalar: "isScalar 0xFFFD" by (simp add: isScalar_def)

lemma bmp_scalar: "c < 65536 \<Longrightarrow> \<not> isHighSurrogate c \<Longrightarrow> \<not> isLowSurrogate c \<Longrightarrow> isScalar c"
  by (auto simp: isScalar_def isHighSurrogate_def isLowSurrogate_def)

lemma scalarValues_scalar: "\<forall>c\<in>set us. c < 65536 \<Longrightarrow> \<forall>cp\<in>set (scalarValues us). isScalar cp"
proof (induction us rule: scalarValues.induct)
  case 1
  then show ?case by simp
next
  case (2 c cs)
  show ?case
  proof (cases "isHighSurrogate c")
    case True
    show ?thesis
    proof (cases cs)
      case Nil
      then show ?thesis using True FFFD_scalar by simp
    next
      case (Cons d ds)
      show ?thesis
      proof (cases "isLowSurrogate d")
        case l: True
        have "\<forall>cp\<in>set (scalarValues ds). isScalar cp"
          using 2(1) [OF True Cons l] 2(5) Cons by simp
        then show ?thesis using True Cons l pair_value(1) [OF True l] by simp
      next
        case l: False
        have "\<forall>cp\<in>set (scalarValues cs). isScalar cp"
          using 2(2) [OF True Cons l] 2(5) by simp
        then show ?thesis using True Cons l FFFD_scalar by simp
      qed
    qed
  next
    case False
    show ?thesis
    proof (cases "isLowSurrogate c")
      case l: True
      have "\<forall>cp\<in>set (scalarValues cs). isScalar cp" using 2(3) [OF False l] 2(5) by simp
      then show ?thesis using False l FFFD_scalar by simp
    next
      case l: False
      have "\<forall>cp\<in>set (scalarValues cs). isScalar cp" using 2(4) [OF False l] 2(5) by simp
      moreover have "isScalar c" using 2(5) False l bmp_scalar by simp
      ultimately show ?thesis using False l by simp
    qed
  qed
qed

lemma codeUnits_scalarValues:
  "wellFormedUnits us \<Longrightarrow> \<forall>c\<in>set us. c < 65536 \<Longrightarrow> concat (map codeUnits (scalarValues us)) = us"
proof (induction us rule: scalarValues.induct)
  case 1
  then show ?case by simp
next
  case (2 c cs)
  show ?case
  proof (cases "isHighSurrogate c")
    case True
    then obtain d ds where cs: "cs = d # ds" and l: "isLowSurrogate d" and w: "wellFormedUnits ds"
      using 2(5) by (auto split: list.splits)
    have "concat (map codeUnits (scalarValues ds)) = ds" using 2(1) [OF True cs l w] 2(6) cs by simp
    then show ?thesis using True cs l pair_value(2) [OF True l] by simp
  next
    case False
    then have l: "\<not> isLowSurrogate c" and w: "wellFormedUnits cs" using 2(5) by simp_all
    have "concat (map codeUnits (scalarValues cs)) = cs" using 2(4) [OF False l w] 2(6) by simp
    moreover have "codeUnits c = [c]" using 2(6) by (simp add: codeUnits_def)
    ultimately show ?thesis using False l by simp
  qed
qed

lemma scalarValues_hd:
  "scalarValues us = cp # cps \<Longrightarrow> cp = 0xFEFF \<Longrightarrow> \<exists>rest. us = 0xFEFF # rest"
proof (cases us)
  case Nil
  assume "scalarValues us = cp # cps"
  then show ?thesis using Nil by simp
next
  case (Cons c cs)
  assume a: "scalarValues us = cp # cps" and f: "cp = 0xFEFF"
  show ?thesis
  proof (cases "isHighSurrogate c")
    case True
    show ?thesis
    proof (cases cs)
      case Nil
      then show ?thesis using a f Cons True by simp
    next
      case c2: (Cons d ds)
      show ?thesis
      proof (cases "isLowSurrogate d")
        case l: True
        have "isScalar cp \<and> codeUnits cp = [c, d]"
          using a Cons True c2 l pair_value [OF True l] by simp
        then show ?thesis using f True by (simp add: codeUnits_def isHighSurrogate_def)
      next
        case False
        then show ?thesis using a f Cons True c2 by simp
      qed
    qed
  next
    case False
    then show ?thesis using a f Cons by (auto split: if_splits)
  qed
qed

lemma stripBOM_scalarValues:
  "(case us of [] \<Rightarrow> True | c # cs \<Rightarrow> c \<noteq> 0xFEFF) \<Longrightarrow> stripBOM (scalarValues us) = scalarValues us"
proof (cases "scalarValues us")
  case Nil
  then show ?thesis by (simp add: stripBOM_def)
next
  case (Cons cp cps)
  assume n: "case us of [] \<Rightarrow> True | c # cs \<Rightarrow> c \<noteq> 0xFEFF"
  have "cp \<noteq> 0xFEFF"
  proof
    assume "cp = 0xFEFF"
    then obtain rest where "us = 0xFEFF # rest" using scalarValues_hd [OF Cons] by blast
    then show False using n by simp
  qed
  then show ?thesis using Cons by (simp add: stripBOM_def)
qed

lemma utf8Decode_concat:
  "\<forall>cp\<in>set cps. isScalar cp \<Longrightarrow> utf8Decode 0 x lo hi (concat (map utf8Bytes cps)) = cps"
proof (induction cps arbitrary: x lo hi)
  case Nil
  then show ?case by (simp add: utf8Decode.simps(1))
next
  case (Cons cp cps)
  then show ?case using utf8Decode_utf8Bytes [of cp x lo hi "concat (map utf8Bytes cps)"] by simp
qed

lemma concat_utf8Bytes_byte:
  "\<forall>cp\<in>set cps. isScalar cp \<Longrightarrow> \<forall>b\<in>set (concat (map utf8Bytes cps)). b < 256"
  using utf8Bytes_byte by (auto simp: isScalar_def)

lemma unat_of_nat_bytes:
  "\<forall>b\<in>set bs. b < 256 \<Longrightarrow> map unat (map of_nat bs :: 8 word list) = bs"
  by (induction bs) (simp_all add: unat_of_nat)

lemma TextDecoder_TextEncoder:
  assumes "isWellFormed s" and "case s of [] \<Rightarrow> True | c # cs \<Rightarrow> c \<noteq> 0xFEFF"
  shows "TextDecoder_decode (TextEncoder_encode s) = s"
proof -
  let ?us = "map unat s"
  have u: "\<forall>c\<in>set ?us. c < 65536"
  proof
    fix c assume "c \<in> set ?us"
    then obtain w :: "16 word" where "c = unat w" by auto
    then show "c < 65536" using unsigned_less [of w] by simp
  qed
  have sc: "\<forall>cp\<in>set (scalarValues ?us). isScalar cp" using u by (rule scalarValues_scalar)
  have bts: "map unat (TextEncoder_encode s) = concat (map utf8Bytes (scalarValues ?us))"
    unfolding TextEncoder_encode_def using concat_utf8Bytes_byte [OF sc] by (rule unat_of_nat_bytes)
  have dec: "utf8Decode 0 0 0x80 0xBF (map unat (TextEncoder_encode s)) = scalarValues ?us"
    unfolding bts using sc by (rule utf8Decode_concat)
  have nb: "case ?us of [] \<Rightarrow> True | c # cs \<Rightarrow> c \<noteq> 0xFEFF"
    using assms(2) by (cases s) (auto simp: word_eq_iff_unsigned [where ?'a = nat])
  have "concat (map codeUnits (stripBOM (scalarValues ?us))) = ?us"
    using stripBOM_scalarValues [OF nb] codeUnits_scalarValues [OF _ u] assms(1)
    by (simp add: isWellFormed_def)
  then have "TextDecoder_decode (TextEncoder_encode s) = map of_nat ?us"
    unfolding TextDecoder_decode_def dec by simp
  then show ?thesis by (simp add: map_idI)
qed

section \<open>Encrypting and decrypting a credential\<close>

lemma decryptText_encryptText:
  "aeadCorrect W \<Longrightarrow>
     decryptText W (encryptText W text key ivBytes) key ivBytes
       = Inr (TextDecoder_decode (TextEncoder_encode text))"
  by (simp add: decryptText_def encryptText_def base64ToArrayBuffer_arrayBufferToBase64
      aeadCorrect_def)

lemma encryptCredential_fields:
  "fst (encryptCredential W r pin e) =
     \<lparr>cred_id = cred_id r,
      site = encryptText W (site r) (deriveKeyFromPin W pin (drawnSalt e)) (drawnIV e),
      username = encryptText W (username r) (deriveKeyFromPin W pin (drawnSalt e)) (drawnIV e),
      password = encryptText W (password r) (deriveKeyFromPin W pin (drawnSalt e)) (drawnIV e),
      iv = Some (arrayBufferToHex (drawnIV e)),
      salt = Some (arrayBufferToHex (drawnSalt e)),
      favicon = favicon r, riskScore = riskScore r, riskFactors = riskFactors r\<rparr>"
  by (simp add: encryptCredential_def drawnSalt_def drawnIV_def Let_def split: prod.splits)

lemma length_drawn: "length (drawnSalt e) = 16" "length (drawnIV e) = 12"
  by (simp_all add: drawnSalt_def drawnIV_def generateSalt_def generateIV_def getRandomValues_def)

lemma decryptCredential_encryptCredential:
  assumes "aeadCorrect W"
  shows "decryptCredential W (fst (encryptCredential W r pin e)) pin =
     Inr \<lparr>cred_id = cred_id r,
          site = TextDecoder_decode (TextEncoder_encode (site r)),
          username = TextDecoder_decode (TextEncoder_encode (username r)),
          password = TextDecoder_decode (TextEncoder_encode (password r)),
          iv = None, salt = None,
          favicon = favicon r, riskScore = riskScore r, riskFactors = riskFactors r\<rparr>"
  unfolding encryptCredential_fields
  by (simp add: decryptCredential_def hexToUint8Array_arrayBufferToHex
      decryptText_encryptText [OF assms])

lemma encryptCredential_isEncrypted: "isEncrypted (fst (encryptCredential W r pin e))"
proof -
  have "drawnIV e \<noteq> []" "drawnSalt e \<noteq> []" using length_drawn [of e] by auto
  then show ?thesis
    unfolding encryptCredential_fields
    by (simp add: isEncrypted_def truthy_opt_def arrayBufferToHex_truthy)
qed

lemma aeadCorrect_fixture: "aeadCorrect fixtureCrypto"
  by (simp add: aeadCorrect_def fixtureCrypto_def)

lemma fixture_texts:
  "TextDecoder_decode (TextEncoder_encode [0x61]) = [0x61]"
  "TextDecoder_decode (TextEncoder_encode [0x62]) = [0x62]"
  "TextDecoder_decode (TextEncoder_encode [0x70]) = [0x70]"
  "TextDecoder_decode (TextEncoder_encode [0xD800]) = [0xFFFD]"
  "TextDecoder_decode (TextEncoder_encode [0xFEFF, 0x70]) = [0x70]"
  by (simp_all add: TextDecoder_decode_def TextEncoder_encode_def isHighSurrogate_def
      isLowSurrogate_def utf8Bytes_def utf8Decode.simps stripBOM_def codeUnits_def)

text \<open>
  Claim C1, as stated for every string, fails: \<open>TextEncoder\<close> writes a surrogate that
  stands alone as \<open>U+FFFD\<close>, and \<open>TextDecoder\<close> drops a leading \<open>U+FEFF\<close>.  A record
  whose password is the single code unit \<open>0xD800\<close> comes back with the password
  \<open>0xFFFD\<close>, and one whose password is \<open>U+FEFF\<close> followed by \<open>p\<close> comes back with \<open>p\<close>.
\<close>

theorem roundtrip_counterexample:
  "decryptCredential fixtureCrypto
      (fst (encryptCredential fixtureCrypto (fixtureCred [0xD800]) fixturePin fixtureEntropy))
      fixturePin = Inr (fixtureCred [0xFFFD])
   \<and> fixtureCred [0xFFFD] \<noteq> fixtureCred [0xD800]
   \<and> decryptCredential fixtureCrypto
      (fst (encryptCredential fixtureCrypto (fixtureCred [0xFEFF, 0x70]) fixturePin fixtureEntropy))
      fixturePin = Inr (fixtureCred [0x70])
   \<and> fixtureCred [0x70] \<noteq> fixtureCred [0xFEFF, 0x70]"
  by (simp add: decryptCredential_encryptCredential [OF aeadCorrect_fixture] fixtureCred_def
      fixture_texts)

text \<open>
  Claim C1, amended.  For every record with exactly the fields \<open>id\<close>, \<open>site\<close>,
  \<open>username\<close>, \<open>password\<close>, \<open>favicon\<close>, \<open>riskScore\<close>, \<open>riskFactors\<close> whose three text
  fields are well-formed strings (no surrogate alone) that do not start with \<open>U+FEFF\<close>,
  every PIN and every random draw: decrypting the encrypted record with the same PIN
  returns the record, provided AES-GCM decrypts what it encrypted.
\<close>

theorem decryptCredential_encryptCredential_roundtrip:
  assumes "aeadCorrect W" and "iv r = None" and "salt r = None"
    and "textRoundTrips (site r)" and "textRoundTrips (username r)"
    and "textRoundTrips (password r)"
  shows "decryptCredential W (fst (encryptCredential W r pin e)) pin = Inr r"
proof -
  have "TextDecoder_decode (TextEncoder_encode (site r)) = site r"
    "TextDecoder_decode (TextEncoder_encode (username r)) = username r"
    "TextDecoder_decode (TextEncoder_encode (password r)) = password r"
    using assms(4-6) by (simp_all add: textRoundTrips_def TextDecoder_TextEncoder)
  then show ?thesis
    using assms(2,3) by (simp add: decryptCredential_encryptCredential [OF assms(1)])
qed

theorem decryptCredential_encryptCredential_roundtrip_witness:
  "aeadCorrect fixtureCrypto \<and> iv (fixtureCred [0x70]) = None \<and> salt (fixtureCred [0x70]) = None
   \<and> textRoundTrips (site (fixtureCred [0x70])) \<and> textRoundTrips (username (fixtureCred [0x70]))
   \<and> textRoundTrips (password (fixtureCred [0x70]))
   \<and> decryptCredential fixtureCrypto
        (fst (encryptCredential fixtureCrypto (fixtureCred [0x70]) fixturePin fixtureEntropy))
        fixturePin = Inr (fixtureCred [0x70])"
proof -
  have h: "iv (fixtureCred [0x70]) = None" "salt (fixtureCred [0x70]) = None"
    "textRoundTrips (site (fixtureCred [0x70]))" "textRoundTrips (username (fixtureCred [0x70]))"
    "textRoundTrips (password (fixtureCred [0x70]))"
    by (simp_all add: fixtureCred_def textRoundTrips_def isWellFormed_def isHighSurrogate_def
        isLowSurrogate_def)
  show ?thesis
    using aeadCorrect_fixture h
      decryptCredential_encryptCredential_roundtrip [OF aeadCorrect_fixture h,
        of fixturePin fixtureEntropy]
    by simp
qed

section \<open>The loop of the load effect\<close>

lemma decryptLoop_eq:
  "decryptLoop W pin list acc t
     = (acc @ concat (map (shown W pin) list), t + length (filter (rejected W pin) list))"
  by (induction list arbitrary: acc t) (auto simp: shown_def rejected_def split: sum.splits)

lemma decryptCredential_plain:
  "decryptCredential W cred pin = Inr d \<Longrightarrow> iv d = None \<and> salt d = None"
  by (auto simp: decryptCredential_def Let_def split: option.splits sum.splits)

lemma decrypted_not_encrypted:
  "decryptCredential W cred pin = Inr d \<Longrightarrow> \<not> isEncrypted d"
  by (drule decryptCredential_plain) (simp add: isEncrypted_def truthy_opt_def)

lemma shown_not_encrypted: "d \<in> set (shown W pin cred) \<Longrightarrow> \<not> isEncrypted d"
  by (auto simp: shown_def decrypted_not_encrypted split: if_splits sum.splits)

lemma migrate_credentials: "credentials (fst (snd (migrate W pin rf_creds list ui e))) = list"
  by (simp add: migrate_def Let_def split: prod.splits)

lemma migrate_tamperedCount:
  "tamperedCount (fst (snd (migrate W pin rf_creds list ui e))) = tamperedCount ui"
  by (simp add: migrate_def Let_def split: prod.splits)

lemma loadWithPin_credentials:
  "credentials (fst (snd (loadWithPin W pin rf_creds ui e))) = concat (map (shown W pin) rf_creds)"
  by (cases "rf_creds = []")
     (simp_all add: loadWithPin_def Let_def decryptLoop_eq migrate_credentials)

lemma loadWithPin_tamperedCount:
  "tamperedCount (fst (snd (loadWithPin W pin rf_creds ui e)))
     = (if 0 < length (filter (rejected W pin) rf_creds)
        then length (filter (rejected W pin) rf_creds) else tamperedCount ui)"
  by (cases "rf_creds = []")
     (simp_all add: loadWithPin_def Let_def decryptLoop_eq migrate_tamperedCount)

section \<open>The load effect partitions the stored list\<close>

lemma loadEffect_truthy: "truthy pin \<Longrightarrow> loadEffect W (Some pin) rf_creds ui e = loadWithPin W pin rf_creds ui e"
  by (simp add: loadEffect_def)

lemma length_filter_split:
  "length (filter (\<lambda>c. P c \<and> \<not> Q c) xs) + length (filter (\<lambda>c. P c \<and> Q c) xs)
     = length (filter P xs)"
  by (induction xs) auto

lemma decryptCredential_bad_site:
  "iv c = Some i \<Longrightarrow> salt c = Some s \<Longrightarrow> atob (site c) = Inl err \<Longrightarrow>
     decryptCredential W c pin = Inl err"
  by (simp add: decryptCredential_def decryptText_def base64ToArrayBuffer_def Let_def)

lemma fixtureEncrypted_decrypts:
  "decryptCredential fixtureCrypto fixtureEncrypted fixturePin = Inr (fixtureCred [0x70])"
  unfolding fixtureEncrypted_def
  by (simp add: decryptCredential_encryptCredential [OF aeadCorrect_fixture] fixtureCred_def
      fixture_texts)

lemma fixtureEncrypted_isEncrypted: "isEncrypted fixtureEncrypted"
  unfolding fixtureEncrypted_def by (rule encryptCredential_isEncrypted)

lemma fixtureTampered_isEncrypted: "isEncrypted fixtureTampered"
  using fixtureEncrypted_isEncrypted by (simp add: fixtureTampered_def isEncrypted_def)

lemma atob_bang: "atob [0x21] = Inl InvalidCharacterError"
  by (simp add: atob_def isAsciiWhitespace_def stripPadding_def b64index_def)

lemma fixtureTampered_fails:
  "decryptCredential fixtureCrypto fixtureTampered fixturePin = Inl InvalidCharacterError"
proof -
  obtain i s where "iv fixtureTampered = Some i" "salt fixtureTampered = Some s"
    using fixtureTampered_isEncrypted
    by (auto simp: isEncrypted_def truthy_opt_def split: option.splits)
  moreover have "atob (site fixtureTampered) = Inl InvalidCharacterError"
    by (simp add: fixtureTampered_def atob_bang)
  ultimately show ?thesis by (rule decryptCredential_bad_site)
qed

lemma fixtureCred_plain: "\<not> isEncrypted (fixtureCred pw)"
  by (simp add: fixtureCred_def isEncrypted_def truthy_opt_def)

text \<open>
  Claim C2.  For every stored list and every PIN, the load effect splits the list by
  the test \<open>cred.iv && cred.salt\<close>.  A record that passes it is decrypted: if that
  succeeds, the decrypted record is in the visible list; if it fails, the record is not
  in the visible list and is counted once, so the number of records decrypted plus the
  tamper count is the number of encrypted records.  A record that does not pass the test
  is shown as it is.  The state's \<open>tamperedCount\<close> is set to the count when it is
  positive.
\<close>

theorem loadEffect_partition:
  fixes W :: webcrypto and rf_creds :: "('r, 'f) credential list"
    and ui :: "('r, 'f) popup_state" and e :: entropy
  assumes "truthy pin"
  defines "visible \<equiv> credentials (fst (snd (loadEffect W (Some pin) rf_creds ui e)))"
    and "tamperedCredentials \<equiv> snd (decryptLoop W pin rf_creds [] 0)"
  shows "visible = concat (map (shown W pin) rf_creds)
    \<and> (\<forall>cred\<in>set rf_creds. isEncrypted cred \<longrightarrow>
          (\<forall>d. decryptCredential W cred pin = Inr d \<longrightarrow> d \<in> set visible)
          \<and> (isl (decryptCredential W cred pin) \<longrightarrow> cred \<notin> set visible))
    \<and> (\<forall>cred\<in>set rf_creds. \<not> isEncrypted cred \<longrightarrow> cred \<in> set visible)
    \<and> tamperedCredentials
          = length (filter (\<lambda>cred. isEncrypted cred \<and> isl (decryptCredential W cred pin)) rf_creds)
    \<and> length (filter (\<lambda>cred. isEncrypted cred \<and> \<not> isl (decryptCredential W cred pin)) rf_creds)
          + tamperedCredentials = length (filter isEncrypted rf_creds)
    \<and> tamperedCount (fst (snd (loadEffect W (Some pin) rf_creds ui e)))
          = (if 0 < tamperedCredentials then tamperedCredentials else tamperedCount ui)"
proof -
  have v: "visible = concat (map (shown W pin) rf_creds)"
    unfolding visible_def loadEffect_truthy [OF assms(1)] by (rule loadWithPin_credentials)
  have t: "tamperedCredentials
      = length (filter (\<lambda>cred. isEncrypted cred \<and> isl (decryptCredential W cred pin)) rf_creds)"
    unfolding tamperedCredentials_def decryptLoop_eq by (simp add: rejected_def [abs_def])
  have a: "\<forall>cred\<in>set rf_creds. isEncrypted cred \<longrightarrow>
          (\<forall>d. decryptCredential W cred pin = Inr d \<longrightarrow> d \<in> set visible)
          \<and> (isl (decryptCredential W cred pin) \<longrightarrow> cred \<notin> set visible)"
  proof (intro ballI impI conjI allI)
    fix cred d
    assume "cred \<in> set rf_creds" "isEncrypted cred" "decryptCredential W cred pin = Inr d"
    then have "d \<in> set (shown W pin cred)" by (simp add: shown_def)
    then show "d \<in> set visible" using \<open>cred \<in> set rf_creds\<close> unfolding v by auto
  next
    fix cred
    assume c: "cred \<in> set rf_creds" "isEncrypted cred"
    show "cred \<notin> set visible"
    proof
      assume "cred \<in> set visible"
      then obtain c' where "cred \<in> set (shown W pin c')" unfolding v by auto
      then show False using shown_not_encrypted c(2) by blast
    qed
  qed
  have b: "\<forall>cred\<in>set rf_creds. \<not> isEncrypted cred \<longrightarrow> cred \<in> set visible"
  proof (intro ballI impI)
    fix cred
    assume "cred \<in> set rf_creds" "\<not> isEncrypted cred"
    then have "cred \<in> set (shown W pin cred)" by (simp add: shown_def)
    then show "cred \<in> set visible" using \<open>cred \<in> set rf_creds\<close> unfolding v by auto
  qed
  have s: "length (filter (\<lambda>cred. isEncrypted cred \<and> \<not> isl (decryptCredential W cred pin)) rf_creds)
          + tamperedCredentials = length (filter isEncrypted rf_creds)"
    unfolding t by (rule length_filter_split)
  have u: "tamperedCount (fst (snd (loadEffect W (Some pin) rf_creds ui e)))
          = (if 0 < tamperedCredentials then tamperedCredentials else tamperedCount ui)"
    unfolding loadEffect_truthy [OF assms(1)] loadWithPin_tamperedCount t
    by (simp add: rejected_def [abs_def])
  show ?thesis using v a b t s u by blast
qed

theorem loadEffect_partition_witness:
  "truthy fixturePin
   \<and> credentials (fst (snd (loadEffect fixtureCrypto (Some fixturePin)
         [fixtureEncrypted, fixtureTampered, fixtureCred []] fixtureUi fixtureEntropy)))
       = [fixtureCred [0x70], fixtureCred []]
   \<and> snd (decryptLoop fixtureCrypto fixturePin
         [fixtureEncrypted, fixtureTampered, fixtureCred []] [] 0) = 1
   \<and> tamperedCount (fst (snd (loadEffect fixtureCrypto (Some fixturePin)
         [fixtureEncrypted, fixtureTampered, fixtureCred []] fixtureUi fixtureEntropy))) = 1"
proof -
  have p: "truthy fixturePin" by (simp add: truthy_def fixturePin_def)
  show ?thesis
    using p loadEffect_partition [OF p, of fixtureCrypto
        "[fixtureEncrypted, fixtureTampered, fixtureCred []]" fixtureUi fixtureEntropy]
      fixtureEncrypted_decrypts fixtureTampered_fails fixtureEncrypted_isEncrypted
      fixtureTampered_isEncrypted fixtureCred_plain [of "[]"]
    by (simp add: shown_def)
qed

section \<open>Records that are neither encrypted nor migrated\<close>

lemma newStorageList_nth:
  "i < length xs \<Longrightarrow> \<not> isPlaintext (xs ! i) \<Longrightarrow> newStorageList em xs ! i = xs ! i"
  by (simp add: newStorageList_def)


lemma migrate_storage:
  "fst (migrate W pin rf_creds list ui e) = rf_creds
   \<or> (\<exists>em. fst (migrate W pin rf_creds list ui e) = newStorageList em rf_creds)"
  by (auto simp: migrate_def Let_def split: prod.splits)

lemma loadWithPin_storage:
  "fst (loadWithPin W pin rf_creds ui e) = rf_creds
   \<or> (\<exists>em. fst (loadWithPin W pin rf_creds ui e) = newStorageList em rf_creds)"
  using migrate_storage [of W pin rf_creds]
  by (auto simp: loadWithPin_def Let_def split: prod.splits)

lemma loadWithPin_storage_nth:
  assumes "i < length rf_creds" "\<not> isPlaintext (rf_creds ! i)"
  shows "fst (loadWithPin W pin rf_creds ui e) ! i = rf_creds ! i"
  using loadWithPin_storage [of W pin rf_creds ui e] newStorageList_nth [OF assms]
  by auto

text \<open>
  Claim C10.  A stored record with exactly one of \<open>iv\<close> and \<open>salt\<close>, or with neither
  and an empty password, is neither encrypted nor plaintext for the load effect: the
  loop pushes it as it is and does not count it, the visible list holds it at its place,
  the migration's filter does not select it, and the stored list keeps it at its place.
\<close>

theorem loadEffect_unclassified:
  fixes W :: webcrypto and before after :: "('r, 'f) credential list"
    and ui :: "('r, 'f) popup_state" and e :: entropy
  assumes "truthy pin"
    and "truthy_opt (iv cred) \<noteq> truthy_opt (salt cred)
         \<or> (\<not> truthy_opt (iv cred) \<and> \<not> truthy_opt (salt cred) \<and> \<not> truthy (password cred))"
  defines "r \<equiv> loadEffect W (Some pin) (before @ cred # after) ui e"
  shows "\<not> isEncrypted cred \<and> \<not> isPlaintext cred
    \<and> decryptLoop W pin (cred # after) acc t = decryptLoop W pin after (acc @ [cred]) t
    \<and> credentials (fst (snd r))
         = concat (map (shown W pin) before) @ cred # concat (map (shown W pin) after)
    \<and> snd (decryptLoop W pin (before @ cred # after) [] 0)
         = snd (decryptLoop W pin (before @ after) [] 0)
    \<and> cred \<notin> set (filter isPlaintext (credentials (fst (snd r))))
    \<and> fst r ! length before = cred"
proof -
  have ne: "\<not> isEncrypted cred" using assms(2) by (auto simp: isEncrypted_def)
  have np: "\<not> isPlaintext cred" using assms(2) by (auto simp: isPlaintext_def)
  have l: "decryptLoop W pin (cred # after) acc t = decryptLoop W pin after (acc @ [cred]) t"
    using ne by simp
  have v: "credentials (fst (snd r))
         = concat (map (shown W pin) before) @ cred # concat (map (shown W pin) after)"
    unfolding r_def loadEffect_truthy [OF assms(1)] loadWithPin_credentials
    using ne by (simp add: shown_def)
  have c: "snd (decryptLoop W pin (before @ cred # after) [] 0)
         = snd (decryptLoop W pin (before @ after) [] 0)"
    using ne by (simp add: decryptLoop_eq rejected_def)
  have m: "cred \<notin> set (filter isPlaintext (credentials (fst (snd r))))" using np by simp
  have s: "fst r ! length before = cred"
    unfolding r_def loadEffect_truthy [OF assms(1)]
    using loadWithPin_storage_nth [of "length before" "before @ cred # after" W pin ui e] np
    by simp
  show ?thesis using ne np l v c m s by blast
qed

theorem loadEffect_unclassified_witness:
  "truthy fixturePin
   \<and> fst (loadEffect fixtureCrypto (Some fixturePin)
        [fixtureCred [0x70], (fixtureCred [0x70])\<lparr>iv := Some [0x30]\<rparr>, fixtureCred []]
        fixtureUi fixtureEntropy) ! 1 = (fixtureCred [0x70])\<lparr>iv := Some [0x30]\<rparr>
   \<and> credentials (fst (snd (loadEffect fixtureCrypto (Some fixturePin)
        [fixtureCred [0x70], (fixtureCred [0x70])\<lparr>iv := Some [0x30]\<rparr>, fixtureCred []]
        fixtureUi fixtureEntropy)))
       = [fixtureCred [0x70], (fixtureCred [0x70])\<lparr>iv := Some [0x30]\<rparr>, fixtureCred []]
   \<and> fst (loadEffect fixtureCrypto (Some fixturePin)
        [fixtureCred [0x70], (fixtureCred [0x70])\<lparr>iv := Some [0x30]\<rparr>, fixtureCred []]
        fixtureUi fixtureEntropy) ! 2 = fixtureCred []"
proof -
  let ?odd = "(fixtureCred [0x70])\<lparr>iv := Some [0x30]\<rparr>"
  have p: "truthy fixturePin" by (simp add: truthy_def fixturePin_def)
  have h1: "truthy_opt (iv ?odd) \<noteq> truthy_opt (salt ?odd)
         \<or> (\<not> truthy_opt (iv ?odd) \<and> \<not> truthy_opt (salt ?odd) \<and> \<not> truthy (password ?odd))"
    by (simp add: fixtureCred_def truthy_opt_def truthy_def)
  have h2: "truthy_opt (iv (fixtureCred [])) \<noteq> truthy_opt (salt (fixtureCred []))
         \<or> (\<not> truthy_opt (iv (fixtureCred [])) \<and> \<not> truthy_opt (salt (fixtureCred []))
             \<and> \<not> truthy (password (fixtureCred [])))"
    by (simp add: fixtureCred_def truthy_opt_def truthy_def)
  have a: "shown fixtureCrypto fixturePin (fixtureCred pw) = [fixtureCred pw]" for pw
    using fixtureCred_plain [of pw] by (simp add: shown_def)
  let ?l = "[fixtureCred [0x70], ?odd, fixtureCred []]"
  let ?r = "loadEffect fixtureCrypto (Some fixturePin) ?l fixtureUi fixtureEntropy"
  have t1: "credentials (fst (snd ?r))
         = concat (map (shown fixtureCrypto fixturePin) [fixtureCred [0x70]]) @ ?odd
             # concat (map (shown fixtureCrypto fixturePin) [fixtureCred []])
      \<and> fst ?r ! length [fixtureCred [0x70]] = ?odd"
    using loadEffect_unclassified [OF p h1, where W = fixtureCrypto
        and before = "[fixtureCred [0x70]]" and after = "[fixtureCred []]"
        and ui = fixtureUi and e = fixtureEntropy]
    by simp
  have t2: "fst ?r ! length [fixtureCred [0x70], ?odd] = fixtureCred []"
    using loadEffect_unclassified [OF p h2, where W = fixtureCrypto
        and before = "[fixtureCred [0x70], ?odd]" and after = "[]"
        and ui = fixtureUi and e = fixtureEntropy]
    by simp
  show ?thesis using p a t1 t2 by (simp add: numeral_2_eq_2)
qed

section \<open>Migration of plaintext records\<close>



















lemma fixture_shown:
  "shown fixtureCrypto fixturePin (fixtureCred pw) = [fixtureCred pw]"
  "shown fixtureCrypto fixturePin fixtureEncrypted = [fixtureCred [0x70]]"
  "shown fixtureCrypto fixturePin fixtureTampered = []"
  using fixtureCred_plain [of pw] fixtureEncrypted_isEncrypted fixtureTampered_isEncrypted
  by (simp_all add: shown_def fixtureEncrypted_decrypts fixtureTampered_fails)


lemma fixture_pin_truthy: "truthy fixturePin"
  by (simp add: truthy_def fixturePin_def)

















section \<open>Saving\<close>

lemma displayLoop_eq:
  "displayLoop W pin list acc
     = acc @ map (\<lambda>cred. if isEncrypted cred then
                    (case decryptCredential W cred pin of Inr dec \<Rightarrow> dec | Inl err \<Rightarrow> cred)
                  else cred) list"
  by (induction list arbitrary: acc) (auto split: sum.splits)

lemma displayLoop_set:
  "t \<in> set list \<Longrightarrow> isEncrypted t \<Longrightarrow> isl (decryptCredential W t pin) \<Longrightarrow>
     t \<in> set (displayLoop W pin list acc)"
  by (auto simp: displayLoop_eq image_iff split: sum.splits intro!: bexI [of _ t])

text \<open>
  A password that passes the checks: the record built from the form is encrypted and
  put first, and the display list is rebuilt.  A password that does not: nothing changes.
\<close>

lemma performSave_accepted:
  assumes "truthy (trim (form_password form))"
    and "6 \<le> length (trim (form_password form))"
    and "hasNumber (trim (form_password form))"
    and "hasSpecial (trim (form_password form))"
  shows "performSave W newURL form siteRisk now s pin rf_creds ui e =
     (SavedEncrypted,
      fst (encryptCredential W (newCredential newURL form siteRisk now s) pin e) # rf_creds,
      ui\<lparr>credentials := displayLoop W pin
           (fst (encryptCredential W (newCredential newURL form siteRisk now s) pin e) # rf_creds)
           []\<rparr>,
      snd (encryptCredential W (newCredential newURL form siteRisk now s) pin e))"
  using assms
  by (simp add: performSave_def newCredential_def Let_def case_prod_beta del: displayLoop.simps)

lemma performSave_refused:
  "\<not> (truthy (trim (form_password form)) \<and> 6 \<le> length (trim (form_password form))
      \<and> hasNumber (trim (form_password form)) \<and> hasSpecial (trim (form_password form))) \<Longrightarrow>
   snd (performSave W newURL form siteRisk now s pin rf_creds ui e) = (rf_creds, ui, e)"
  by (auto simp: performSave_def Let_def)

text \<open>
  The load effect on a store that holds \<open>fixtureTampered\<close>, which does not decrypt, leaves
  it out of the visible list.
\<close>

lemma loadEffect_leaves_out_failed_record:
  "credentials (fst (snd (loadEffect fixtureCrypto (Some fixturePin)
        [fixtureEncrypted, fixtureTampered] fixtureUi fixtureEntropy))) = [fixtureCred [0x70]]"
  unfolding loadEffect_truthy [OF fixture_pin_truthy] loadWithPin_credentials
  by (simp add: fixture_shown)

text \<open>
  Claim C3 fails at \<open>performSave\<close>.  Let the password of the form pass the checks of
  \<open>performSave\<close> (not empty after trimming, at least 6 code units, a digit and a
  character that is neither letter nor digit), and let the store hold a record \<open>t\<close> that
  has \<open>iv\<close> and \<open>salt\<close> and whose decryption with the PIN fails.  Then the save succeeds,
  \<open>t\<close> is still stored, and \<open>t\<close> itself, ciphertext and all, is in the visible list: the
  \<open>catch\<close> block of the display loop pushes the stored record.
\<close>

theorem performSave_displays_failed_record:
  fixes W :: webcrypto and rf_creds :: "('r option, (jsstring \<times> 'r) list) credential list"
  assumes "truthy (trim (form_password form))"
    and "6 \<le> length (trim (form_password form))"
    and "hasNumber (trim (form_password form))"
    and "hasSpecial (trim (form_password form))"
    and "t \<in> set rf_creds" and "isEncrypted t" and "isl (decryptCredential W t pin)"
  shows "fst (performSave W newURL form siteRisk now s pin rf_creds ui e) = SavedEncrypted
    \<and> t \<in> set (fst (snd (performSave W newURL form siteRisk now s pin rf_creds ui e)))
    \<and> t \<in> set (credentials
          (fst (snd (snd (performSave W newURL form siteRisk now s pin rf_creds ui e)))))"
proof -
  let ?enc = "fst (encryptCredential W (newCredential newURL form siteRisk now s) pin e)"
  have "t \<in> set (?enc # rf_creds)" using assms(5) by simp
  then have "t \<in> set (displayLoop W pin (?enc # rf_creds) [])"
    using assms(6,7) by (rule displayLoop_set)
  then show ?thesis
    unfolding performSave_accepted [OF assms(1-4)] using assms(5) by simp
qed

lemma fixture_form_password:
  "trim (form_password fixtureForm) = ascii ''Abc123!''"
  by (simp add: fixtureForm_def trim_def ascii_def isStrWhiteSpaceChar_def)

lemma fixture_newCredential:
  "newCredential fixtureURL fixtureForm fixtureSiteRisk 5 (ascii ''a.b'') = fixtureNewCred"
  by (simp add: newCredential_def fixtureURL_def fixtureForm_def fixtureSiteRisk_def
      fixtureNewCred_def hasHttpScheme_def ascii_def toLowerAscii_def cleanPathname_def)

lemma fixtureStoredBad_fails:
  "isEncrypted fixtureStoredBad"
  "decryptCredential fixtureCrypto fixtureStoredBad fixturePin = Inl InvalidCharacterError"
proof -
  show "isEncrypted fixtureStoredBad"
    by (simp add: fixtureStoredBad_def isEncrypted_def truthy_opt_def truthy_def ascii_def)
  have "atob (site fixtureStoredBad) = Inl InvalidCharacterError"
    using atob_bang by (simp add: fixtureStoredBad_def ascii_def)
  then show "decryptCredential fixtureCrypto fixtureStoredBad fixturePin = Inl InvalidCharacterError"
    by (intro decryptCredential_bad_site [where i = "ascii ''00''" and s = "ascii ''00''"])
       (simp_all add: fixtureStoredBad_def)
qed

lemma fixtureNewCred_roundtrip:
  "decryptCredential fixtureCrypto
     (fst (encryptCredential fixtureCrypto fixtureNewCred fixturePin fixtureEntropy)) fixturePin
     = Inr fixtureNewCred"
proof -
  have "textRoundTrips (site fixtureNewCred)" "textRoundTrips (username fixtureNewCred)"
    "textRoundTrips (password fixtureNewCred)"
    by (simp_all add: fixtureNewCred_def textRoundTrips_def isWellFormed_def ascii_def
        isHighSurrogate_def isLowSurrogate_def)
  then have "TextDecoder_decode (TextEncoder_encode (site fixtureNewCred)) = site fixtureNewCred"
    "TextDecoder_decode (TextEncoder_encode (username fixtureNewCred)) = username fixtureNewCred"
    "TextDecoder_decode (TextEncoder_encode (password fixtureNewCred)) = password fixtureNewCred"
    by (simp_all add: textRoundTrips_def TextDecoder_TextEncoder)
  then show ?thesis
    by (simp add: decryptCredential_encryptCredential [OF aeadCorrect_fixture])
       (simp add: fixtureNewCred_def)
qed

theorem performSave_displays_failed_record_witness:
  "truthy (trim (form_password fixtureForm)) \<and> 6 \<le> length (trim (form_password fixtureForm))
   \<and> hasNumber (trim (form_password fixtureForm)) \<and> hasSpecial (trim (form_password fixtureForm))
   \<and> isEncrypted fixtureStoredBad
   \<and> decryptCredential fixtureCrypto fixtureStoredBad fixturePin = Inl InvalidCharacterError
   \<and> fst (performSave fixtureCrypto fixtureURL fixtureForm fixtureSiteRisk 5 (ascii ''a.b'')
        fixturePin [fixtureStoredBad] fixtureSaveUi fixtureEntropy) = SavedEncrypted
   \<and> credentials (fst (snd (snd (performSave fixtureCrypto fixtureURL fixtureForm
        fixtureSiteRisk 5 (ascii ''a.b'') fixturePin [fixtureStoredBad] fixtureSaveUi
        fixtureEntropy)))) = [fixtureNewCred, fixtureStoredBad]"
proof -
  have h: "truthy (trim (form_password fixtureForm))"
    "6 \<le> length (trim (form_password fixtureForm))"
    "hasNumber (trim (form_password fixtureForm))"
    "hasSpecial (trim (form_password fixtureForm))"
    unfolding fixture_form_password
    by (simp_all add: truthy_def ascii_def hasNumber_def hasSpecial_def)
  have i: "isl (decryptCredential fixtureCrypto fixtureStoredBad fixturePin)"
    by (simp add: fixtureStoredBad_fails)
  have m: "fixtureStoredBad \<in> set [fixtureStoredBad]" by simp
  have s: "fst (performSave fixtureCrypto fixtureURL fixtureForm fixtureSiteRisk 5 (ascii ''a.b'')
        fixturePin [fixtureStoredBad] fixtureSaveUi fixtureEntropy) = SavedEncrypted"
    using performSave_displays_failed_record [OF h m fixtureStoredBad_fails(1) i] by blast
  have c: "credentials (fst (snd (snd (performSave fixtureCrypto fixtureURL fixtureForm
        fixtureSiteRisk 5 (ascii ''a.b'') fixturePin [fixtureStoredBad] fixtureSaveUi
        fixtureEntropy)))) = [fixtureNewCred, fixtureStoredBad]"
    unfolding performSave_accepted [OF h] fixture_newCredential
    using encryptCredential_isEncrypted [of fixtureCrypto fixtureNewCred fixturePin fixtureEntropy]
    by (simp add: displayLoop_eq fixtureNewCred_roundtrip fixtureStoredBad_fails)
  show ?thesis using h fixtureStoredBad_fails s c by simp
qed

section \<open>Salt and IV of an encrypted record\<close>

text \<open>
  On claim C6.  What can be said without a model of AES-GCM and of the random source:
  \<open>encryptCredential\<close> draws 16 bytes of salt and then 12 bytes of IV and stores both in
  hexadecimal, and two calls whose draws differ store different \<open>salt\<close> and \<open>iv\<close> fields.
  That the ciphertexts differ too is a property of the cipher, which is a parameter here.
\<close>

lemma encryptCredential_draws:
  "iv (fst (encryptCredential W r pin e)) = Some (arrayBufferToHex (drawnIV e))
   \<and> salt (fst (encryptCredential W r pin e)) = Some (arrayBufferToHex (drawnSalt e))
   \<and> length (drawnSalt e) = 16 \<and> length (drawnIV e) = 12"
  by (simp add: encryptCredential_fields length_drawn)

lemma distinct_draws_distinct_fields:
  assumes "drawnSalt e1 \<noteq> drawnSalt e2" and "drawnIV e1 \<noteq> drawnIV e2"
  shows "iv (fst (encryptCredential W1 r1 pin1 e1)) \<noteq> iv (fst (encryptCredential W2 r2 pin2 e2))
    \<and> salt (fst (encryptCredential W1 r1 pin1 e1)) \<noteq> salt (fst (encryptCredential W2 r2 pin2 e2))"
  using assms arrayBufferToHex_inj by (auto simp: encryptCredential_fields)

end
